theory Spec2Isabelle
  imports Complex_Main "HOL-Library.Signed_Division"
begin

section \<open>Blob Ross: the shape generator and the liquify engine of App.tsx\<close>

text \<open>
  The embedding follows \<^verbatim>\<open>src/App.tsx\<close>. A JavaScript \<^verbatim>\<open>number\<close> that holds a
  coordinate is a \<^typ>\<open>real\<close>: arithmetic is exact, so the theorems on this embedding are
  about the algebra of the program and say nothing about IEEE-754 rounding. A \<^verbatim>\<open>number\<close>
  that only ever holds an integer (an array index, a vertex count, the rotation in degrees)
  is an \<^typ>\<open>int\<close>, and the remainder operator \<^verbatim>\<open>%\<close> is the truncating \<open>smod\<close>.

  Two properties are decided by rounding: whether a vertex is exactly the midpoint of its
  two handles, and whether the radius of a generated vertex stays strictly below 240. For
  these, \<^verbatim>\<open>computeBezierPoints\<close> and the vertex loop of \<^verbatim>\<open>generateRandomShape\<close> are
  embedded a second time over binary64 numbers (constants with the suffix \<open>64\<close>).
\<close>

subsection \<open>Types\<close>

record Vertex =
  x :: real
  y :: real

record BezierPoint = Vertex +
  cp1x :: real
  cp1y :: real
  cp2x :: real
  cp2y :: real

record ShapeConfig =
  vertices :: "Vertex list"
  points :: "BezierPoint list"
  color :: string
  rotation :: int
  flipX :: bool
  flipY :: bool

datatype InteractionMode = draw | erase | liquify

subsection \<open>Constants\<close>

definition CANVAS_SIZE :: real where
  "CANVAS_SIZE = 600"

definition LIQUIFY_RADIUS :: real where
  "LIQUIFY_RADIUS = 60"

definition LIQUIFY_STRENGTH :: real where
  "LIQUIFY_STRENGTH = 0.8"

subsection \<open>computeBezierPoints\<close>

text \<open>
  \<^verbatim>\<open>vertices[k]\<close> for an integer index; the callers below only read inside the array
  (lemmas \<open>prev_index_in_range\<close> and \<open>next_index_in_range\<close>).
\<close>

definition at_index :: "'a list \<Rightarrow> int \<Rightarrow> 'a" where
  "at_index xs k = xs ! nat k"

definition tension :: real where
  "tension = 0.3"

text \<open>The callback of \<^verbatim>\<open>vertices.map((p, i) => ...)\<close>.\<close>

definition bezierPoint :: "Vertex list \<Rightarrow> int \<Rightarrow> Vertex \<Rightarrow> BezierPoint" where
  "bezierPoint vs i p =
     (let numPoints = int (length vs);
          prev = at_index vs ((i - 1 + numPoints) smod numPoints);
          next = at_index vs ((i + 1) smod numPoints)
      in \<lparr> x = x p, y = y p,
           cp1x = x p - (x next - x prev) * tension,
           cp1y = y p - (y next - y prev) * tension,
           cp2x = x p + (x next - x prev) * tension,
           cp2y = y p + (y next - y prev) * tension \<rparr>)"

definition computeBezierPoints :: "Vertex list \<Rightarrow> BezierPoint list" where
  "computeBezierPoints vs =
     map (\<lambda>(i, p). bezierPoint vs (int i) p) (enumerate 0 vs)"

subsection \<open>generateRandomShape\<close>

text \<open>
  \<^verbatim>\<open>Math.random()\<close> is the host's source of numbers in \<open>[0, 1)\<close>. The model reads
  draw number \<open>k\<close> from a sequence \<open>rng\<close> and threads the count of draws made so far;
  the theorems about the generator assume every draw lies in \<open>[0, 1)\<close>.
\<close>

type_synonym rng = "nat \<Rightarrow> real"

definition Math_random :: "rng \<Rightarrow> nat \<Rightarrow> real \<times> nat" where
  "Math_random rng k = (rng k, Suc k)"

definition centerX :: real where
  "centerX = CANVAS_SIZE / 2"

definition centerY :: real where
  "centerY = CANVAS_SIZE / 2"

definition baseRadius :: real where
  "baseRadius = CANVAS_SIZE * 0.25"

definition blobColors :: "string list" where
  "blobColors =
     [''#f4c8d5'', ''#80cbfa'', ''#8ed99e'', ''#c3b1db'', ''#f2ebda'', ''#5ba470'', ''#ebcf64'']"

text \<open>
  The \<^verbatim>\<open>for\<close> loop that pushes the vertices: \<open>i\<close> is the loop counter, \<open>k\<close> the number
  of draws made, \<open>vs\<close> the array built so far.
\<close>

function generateVertices :: "rng \<Rightarrow> int \<Rightarrow> int \<Rightarrow> nat \<Rightarrow> Vertex list \<Rightarrow> Vertex list \<times> nat" where
  "generateVertices rng numPoints i k vs =
     (if i < numPoints then
        (let angle = (of_int i / of_int numPoints) * pi * 2;
             (u, k') = Math_random rng k;
             radius = baseRadius + (u - 0.5) * baseRadius * 1.2
         in generateVertices rng numPoints (i + 1) k'
              (vs @ [\<lparr> x = centerX + cos angle * radius, y = centerY + sin angle * radius \<rparr>]))
      else (vs, k))"
  by pat_completeness auto
termination
  by (relation "measure (\<lambda>(rng, numPoints, i, k, vs). nat (numPoints - i))") auto

declare generateVertices.simps [simp del]

text \<open>The object that \<^verbatim>\<open>generateRandomShape\<close> hands to \<^verbatim>\<open>setShape\<close>.\<close>

definition generatedShape :: "rng \<Rightarrow> ShapeConfig" where
  "generatedShape rng =
     (let (u0, k0) = Math_random rng 0;
          numPoints = \<lfloor>u0 * 4\<rfloor> + 6;
          (vs, k1) = generateVertices rng numPoints 0 k0 [];
          bezierPoints = computeBezierPoints vs;
          (uc, k2) = Math_random rng k1;
          color = at_index blobColors \<lfloor>uc * of_nat (length blobColors)\<rfloor>
      in \<lparr> vertices = vs, points = bezierPoints, color = color,
           rotation = 0, flipX = False, flipY = False \<rparr>)"

subsection \<open>The transformation matrix of the 2D context\<close>

text \<open>
  \<^verbatim>\<open>ctx.translate\<close>, \<^verbatim>\<open>ctx.rotate\<close> and \<^verbatim>\<open>ctx.scale\<close> belong to the browser's
  \<^verbatim>\<open>CanvasRenderingContext2D\<close>. As the HTML standard defines them, each multiplies the
  current transformation matrix on the right by the matrix of the operation, and a path
  coordinate is mapped through the matrix current when it is added. The matrix has the
  six entries of a \<^verbatim>\<open>DOMMatrix\<close>: a point \<open>(px, py)\<close> goes to
  \<open>(m11 * px + m21 * py + m41, m12 * px + m22 * py + m42)\<close>.
\<close>

record Matrix =
  m11 :: real
  m12 :: real
  m21 :: real
  m22 :: real
  m41 :: real
  m42 :: real

definition identityMatrix :: Matrix where
  "identityMatrix = \<lparr> m11 = 1, m12 = 0, m21 = 0, m22 = 1, m41 = 0, m42 = 0 \<rparr>"

definition multiply :: "Matrix \<Rightarrow> Matrix \<Rightarrow> Matrix" where
  "multiply A B =
     \<lparr> m11 = m11 A * m11 B + m21 A * m12 B,
       m12 = m12 A * m11 B + m22 A * m12 B,
       m21 = m11 A * m21 B + m21 A * m22 B,
       m22 = m12 A * m21 B + m22 A * m22 B,
       m41 = m11 A * m41 B + m21 A * m42 B + m41 A,
       m42 = m12 A * m41 B + m22 A * m42 B + m42 A \<rparr>"

definition transformPoint :: "Matrix \<Rightarrow> Vertex \<Rightarrow> Vertex" where
  "transformPoint M p =
     \<lparr> x = m11 M * x p + m21 M * y p + m41 M, y = m12 M * x p + m22 M * y p + m42 M \<rparr>"

definition ctx_translate :: "real \<Rightarrow> real \<Rightarrow> Matrix \<Rightarrow> Matrix" where
  "ctx_translate tx ty M =
     multiply M \<lparr> m11 = 1, m12 = 0, m21 = 0, m22 = 1, m41 = tx, m42 = ty \<rparr>"

definition ctx_rotate :: "real \<Rightarrow> Matrix \<Rightarrow> Matrix" where
  "ctx_rotate angle M =
     multiply M \<lparr> m11 = cos angle, m12 = sin angle, m21 = - sin angle, m22 = cos angle,
                  m41 = 0, m42 = 0 \<rparr>"

definition ctx_scale :: "real \<Rightarrow> real \<Rightarrow> Matrix \<Rightarrow> Matrix" where
  "ctx_scale sx sy M =
     multiply M \<lparr> m11 = sx, m12 = 0, m21 = 0, m22 = sy, m41 = 0, m42 = 0 \<rparr>"

text \<open>
  The four transformation calls of \<^verbatim>\<open>drawShape\<close>, in the order of the source, on the
  untransformed context (the context is saved before and restored after, so every call
  of \<^verbatim>\<open>drawShape\<close> starts from the identity).
\<close>

definition drawShape_transform :: "ShapeConfig \<Rightarrow> Matrix" where
  "drawShape_transform sh =
     ctx_translate (- CANVAS_SIZE / 2) (- CANVAS_SIZE / 2)
       (ctx_scale (if flipX sh then - 1 else 1) (if flipY sh then - 1 else 1)
         (ctx_rotate ((of_int (rotation sh) * pi) / 180)
           (ctx_translate (CANVAS_SIZE / 2) (CANVAS_SIZE / 2) identityMatrix)))"

subsection \<open>Application state and pointer handlers\<close>

text \<open>
  The ink layer is the list of calls issued on the 2D context of the top canvas; the
  canvas element and its context may each be missing.
\<close>

datatype InkCall =
    BeginPath
  | MoveTo real real
  | LineTo real real
  | Stroke
  | SetLineCapRound
  | SetLineJoinRound
  | SetComposite string
  | SetStrokeStyle string
  | SetLineWidth real
  | ClearRect real real real real

record TopCanvas =
  context2d :: "InkCall list option"

record AppState =
  shape :: "ShapeConfig option"
  isInteracting :: bool
  mode :: InteractionMode
  lastPos :: "Vertex option"
  topCanvas :: "TopCanvas option"

definition brushSize :: real where
  "brushSize = 4"

definition brushColor :: string where
  "brushColor = ''#1a1a1a''"

definition generateRandomShape :: "rng \<Rightarrow> AppState \<Rightarrow> AppState" where
  "generateRandomShape rng st = st\<lparr> shape := Some (generatedShape rng) \<rparr>"

text \<open>
  The handlers take the pointer position already converted to canvas pixels (the result
  of \<^verbatim>\<open>getCanvasCoords\<close>).
\<close>

definition handleMouseDown :: "Vertex \<Rightarrow> AppState \<Rightarrow> AppState" where
  "handleMouseDown coords st =
     (case topCanvas st of
        None \<Rightarrow> st
      | Some canvas \<Rightarrow>
          (let st1 = st\<lparr> lastPos := Some coords, isInteracting := True \<rparr>
           in if mode st = draw \<or> mode st = erase then
                (case context2d canvas of
                   None \<Rightarrow> st1
                 | Some calls \<Rightarrow>
                     (let calls1 = calls @ [BeginPath, MoveTo (x coords) (y coords),
                                            SetLineCapRound, SetLineJoinRound];
                          calls2 =
                            (if mode st = erase then
                               calls1 @ [SetComposite ''destination-out'',
                                         SetLineWidth (brushSize * 5)]
                             else
                               calls1 @ [SetComposite ''source-over'',
                                         SetStrokeStyle brushColor, SetLineWidth brushSize])
                      in st1\<lparr> topCanvas := Some (canvas\<lparr> context2d := Some calls2 \<rparr>) \<rparr>))
              else st1))"

text \<open>\<^verbatim>\<open>transformCoords\<close> closes over the shape of the current render.\<close>

definition transformCoords :: "ShapeConfig \<Rightarrow> Vertex \<Rightarrow> Vertex" where
  "transformCoords sh p =
     (let tx = x p - CANVAS_SIZE / 2;
          ty = y p - CANVAS_SIZE / 2;
          rad = (- of_int (rotation sh) * pi) / 180;
          rx = tx * cos rad - ty * sin rad;
          ry = tx * sin rad + ty * cos rad;
          sx = (if flipX sh then - rx else rx);
          sy = (if flipY sh then - ry else ry)
      in \<lparr> x = sx + CANVAS_SIZE / 2, y = sy + CANVAS_SIZE / 2 \<rparr>)"

text \<open>The callback of \<^verbatim>\<open>shape.vertices.map(v => ...)\<close>.\<close>

definition liquifyVertex :: "Vertex \<Rightarrow> real \<Rightarrow> real \<Rightarrow> Vertex \<Rightarrow> Vertex" where
  "liquifyVertex localCoords ldx ldy v =
     (let dist = sqrt ((x v - x localCoords)\<^sup>2 + (y v - y localCoords)\<^sup>2)
      in if dist < LIQUIFY_RADIUS then
           (let force = (1 - dist / LIQUIFY_RADIUS) * LIQUIFY_STRENGTH
            in \<lparr> x = x v + ldx * force, y = y v + ldy * force \<rparr>)
         else v)"

definition newVertices :: "ShapeConfig \<Rightarrow> Vertex \<Rightarrow> Vertex \<Rightarrow> Vertex list" where
  "newVertices sh coords lastp =
     (let localCoords = transformCoords sh coords;
          prevLocalCoords = transformCoords sh lastp;
          ldx = x localCoords - x prevLocalCoords;
          ldy = y localCoords - y prevLocalCoords
      in map (liquifyVertex localCoords ldx ldy) (vertices sh))"

text \<open>
  The updater \<^verbatim>\<open>prev => prev ? {...prev, vertices, points} : null\<close>. The handler runs
  in the render that holds the current shape, so the updater is applied to that shape.
\<close>

definition setShape_liquify :: "Vertex list \<Rightarrow> ShapeConfig option \<Rightarrow> ShapeConfig option" where
  "setShape_liquify nvs prev =
     (case prev of
        Some p \<Rightarrow> Some (p\<lparr> vertices := nvs, points := computeBezierPoints nvs \<rparr>)
      | None \<Rightarrow> None)"

definition handleMouseMove :: "Vertex \<Rightarrow> AppState \<Rightarrow> AppState" where
  "handleMouseMove coords st =
     (if \<not> isInteracting st then st
      else
        (case topCanvas st of
           None \<Rightarrow> st
         | Some canvas \<Rightarrow>
             if mode st = draw \<or> mode st = erase then
               (case context2d canvas of
                  None \<Rightarrow> st
                | Some calls \<Rightarrow>
                    st\<lparr> topCanvas :=
                          Some (canvas\<lparr> context2d :=
                                  Some (calls @ [LineTo (x coords) (y coords), Stroke]) \<rparr>),
                        lastPos := Some coords \<rparr>)
             else
               (case (mode st, shape st, lastPos st) of
                  (liquify, Some sh, Some lastp) \<Rightarrow>
                    st\<lparr> shape := setShape_liquify (newVertices sh coords lastp) (shape st),
                        lastPos := Some coords \<rparr>
                | _ \<Rightarrow> st\<lparr> lastPos := Some coords \<rparr>)))"

definition handleMouseUp :: "AppState \<Rightarrow> AppState" where
  "handleMouseUp st = st\<lparr> isInteracting := False, lastPos := None \<rparr>"

definition rotateShape :: "AppState \<Rightarrow> AppState" where
  "rotateShape st =
     st\<lparr> shape := (case shape st of
                     Some prev \<Rightarrow> Some (prev\<lparr> rotation := (rotation prev + 90) smod 360 \<rparr>)
                   | None \<Rightarrow> None) \<rparr>"

definition flipHorizontal :: "AppState \<Rightarrow> AppState" where
  "flipHorizontal st =
     st\<lparr> shape := (case shape st of
                     Some prev \<Rightarrow> Some (prev\<lparr> flipX := \<not> flipX prev \<rparr>)
                   | None \<Rightarrow> None) \<rparr>"

definition flipVertical :: "AppState \<Rightarrow> AppState" where
  "flipVertical st =
     st\<lparr> shape := (case shape st of
                     Some prev \<Rightarrow> Some (prev\<lparr> flipY := \<not> flipY prev \<rparr>)
                   | None \<Rightarrow> None) \<rparr>"

text \<open>
  The pointer events wired to the top canvas (\<^verbatim>\<open>onMouseDown\<close>, \<^verbatim>\<open>onMouseMove\<close>,
  \<^verbatim>\<open>onMouseUp\<close> and their touch twins), and a session of them run in order.
\<close>

datatype PointerEvent = Down Vertex | Move Vertex | Up

fun dispatch :: "PointerEvent \<Rightarrow> AppState \<Rightarrow> AppState" where
  "dispatch (Down coords) st = handleMouseDown coords st"
| "dispatch (Move coords) st = handleMouseMove coords st"
| "dispatch Up st = handleMouseUp st"

definition runEvents :: "PointerEvent list \<Rightarrow> AppState \<Rightarrow> AppState" where
  "runEvents evs st = fold dispatch evs st"

subsection \<open>binary64 arithmetic\<close>

text \<open>
  A \<open>double\<close> is a binary64 number: \<open>Some r\<close> is the finite number \<open>r\<close>, \<open>None\<close> is a
  non-finite one (an infinity or NaN). \<open>round64\<close> rounds a real to the nearest binary64
  number, ties to the even significand: the spacing at \<open>r\<close> is \<open>2 powi (e - 52)\<close> with
  \<open>e\<close> the binary exponent of \<open>r\<close>, not below \<open>- 1022\<close> (gradual underflow), and a
  result of magnitude \<open>2 ^ 1024\<close> or more overflows. Negative zero is not distinguished
  from zero. A sum, difference or product is the rounded exact result; with a non-finite
  operand it is non-finite. A numeric literal of the source denotes the binary64 number
  nearest to it.
\<close>

type_synonym double = "real option"

definition roundTiesToEven :: "real \<Rightarrow> int" where
  "roundTiesToEven q =
     (let f = \<lfloor>q\<rfloor>; d = q - of_int f
      in if d < 1 / 2 then f
         else if 1 / 2 < d then f + 1
         else if even f then f else f + 1)"

definition exponent64 :: "real \<Rightarrow> int" where
  "exponent64 r = max \<lfloor>log 2 \<bar>r\<bar>\<rfloor> (- 1022)"

definition ulp64 :: "real \<Rightarrow> real" where
  "ulp64 r = 2 powi (exponent64 r - 52)"

definition round64 :: "real \<Rightarrow> double" where
  "round64 r =
     (if r = 0 then Some 0
      else (let c = of_int (roundTiesToEven (r / ulp64 r)) * ulp64 r
            in if \<bar>c\<bar> < 2 ^ 1024 then Some c else None))"

definition add64 :: "double \<Rightarrow> double \<Rightarrow> double" where
  "add64 a b = (case (a, b) of (Some p, Some q) \<Rightarrow> round64 (p + q) | _ \<Rightarrow> None)"

definition sub64 :: "double \<Rightarrow> double \<Rightarrow> double" where
  "sub64 a b = (case (a, b) of (Some p, Some q) \<Rightarrow> round64 (p - q) | _ \<Rightarrow> None)"

definition mul64 :: "double \<Rightarrow> double \<Rightarrow> double" where
  "mul64 a b = (case (a, b) of (Some p, Some q) \<Rightarrow> round64 (p * q) | _ \<Rightarrow> None)"

text \<open>The quotient of two finite numbers; division by zero is non-finite.\<close>

definition div64 :: "real \<Rightarrow> real \<Rightarrow> double" where
  "div64 p q = (if q = 0 then None else round64 (p / q))"

subsection \<open>computeBezierPoints over binary64\<close>

record Vertex64 =
  x64 :: double
  y64 :: double

record BezierPoint64 = Vertex64 +
  cp1x64 :: double
  cp1y64 :: double
  cp2x64 :: double
  cp2y64 :: double

definition tension64 :: double where
  "tension64 = round64 0.3"

definition bezierPoint64 :: "Vertex64 list \<Rightarrow> int \<Rightarrow> Vertex64 \<Rightarrow> BezierPoint64" where
  "bezierPoint64 vs i p =
     (let numPoints = int (length vs);
          prev = at_index vs ((i - 1 + numPoints) smod numPoints);
          next = at_index vs ((i + 1) smod numPoints)
      in \<lparr> x64 = x64 p, y64 = y64 p,
           cp1x64 = sub64 (x64 p) (mul64 (sub64 (x64 next) (x64 prev)) tension64),
           cp1y64 = sub64 (y64 p) (mul64 (sub64 (y64 next) (y64 prev)) tension64),
           cp2x64 = add64 (x64 p) (mul64 (sub64 (x64 next) (x64 prev)) tension64),
           cp2y64 = add64 (y64 p) (mul64 (sub64 (y64 next) (y64 prev)) tension64) \<rparr>)"

definition computeBezierPoints64 :: "Vertex64 list \<Rightarrow> BezierPoint64 list" where
  "computeBezierPoints64 vs =
     map (\<lambda>(i, p). bezierPoint64 vs (int i) p) (enumerate 0 vs)"

subsection \<open>The vertex loop of generateRandomShape over binary64\<close>

text \<open>
  \<^verbatim>\<open>Math.cos\<close> and \<^verbatim>\<open>Math.sin\<close> are the host's; the model takes them as functions
  \<open>mcos\<close> and \<open>msin\<close> on the finite numbers, and the theorem on the generated vertices
  assumes their values lie in \<open>[-1, 1]\<close>. \<open>PI64\<close> is \<^verbatim>\<open>Math.PI\<close>, the binary64 number
  \<open>0x400921FB54442D18\<close>. \<open>numPoints64\<close> is \<^verbatim>\<open>Math.floor(Math.random() * 4) + 6\<close> (were
  the product not finite, the count would be NaN and the loop would not run), \<open>angle64\<close>
  and \<open>radius64\<close> are the two locals of the loop body, and \<open>generatedVertices64\<close> is the
  array \<^verbatim>\<open>vertices\<close> after the loop.
\<close>

definition Math_fn :: "(real \<Rightarrow> real) \<Rightarrow> double \<Rightarrow> double" where
  "Math_fn f a = (case a of Some t \<Rightarrow> Some (f t) | None \<Rightarrow> None)"

definition PI64 :: real where
  "PI64 = 884279719003555 / 281474976710656"

definition centerX64 :: double where
  "centerX64 = div64 CANVAS_SIZE 2"

definition centerY64 :: double where
  "centerY64 = div64 CANVAS_SIZE 2"

definition baseRadius64 :: double where
  "baseRadius64 = mul64 (Some CANVAS_SIZE) (round64 0.25)"

definition numPoints64 :: "real \<Rightarrow> int" where
  "numPoints64 u = (case mul64 (Some u) (Some 4) of Some p \<Rightarrow> \<lfloor>p\<rfloor> + 6 | None \<Rightarrow> 0)"

definition angle64 :: "int \<Rightarrow> int \<Rightarrow> double" where
  "angle64 i numPoints = mul64 (mul64 (div64 (of_int i) (of_int numPoints)) (Some PI64)) (Some 2)"

definition radius64 :: "real \<Rightarrow> double" where
  "radius64 u =
     add64 baseRadius64 (mul64 (mul64 (sub64 (Some u) (round64 0.5)) baseRadius64) (round64 1.2))"

function generateVertices64 ::
  "rng \<Rightarrow> (real \<Rightarrow> real) \<Rightarrow> (real \<Rightarrow> real) \<Rightarrow> int \<Rightarrow> int \<Rightarrow> nat \<Rightarrow> Vertex64 list
   \<Rightarrow> Vertex64 list \<times> nat" where
  "generateVertices64 rng mcos msin numPoints i k vs =
     (if i < numPoints then
        (let angle = angle64 i numPoints;
             (u, k') = Math_random rng k;
             radius = radius64 u
         in generateVertices64 rng mcos msin numPoints (i + 1) k'
              (vs @ [\<lparr> x64 = add64 centerX64 (mul64 (Math_fn mcos angle) radius),
                        y64 = add64 centerY64 (mul64 (Math_fn msin angle) radius) \<rparr>]))
      else (vs, k))"
  by pat_completeness auto
termination
  by (relation "measure (\<lambda>(rng, mcos, msin, numPoints, i, k, vs). nat (numPoints - i))") auto

declare generateVertices64.simps [simp del]

definition generatedVertices64 :: "rng \<Rightarrow> (real \<Rightarrow> real) \<Rightarrow> (real \<Rightarrow> real) \<Rightarrow> Vertex64 list" where
  "generatedVertices64 rng mcos msin =
     (let (u0, k0) = Math_random rng 0;
          numPoints = numPoints64 u0;
          (vs, k1) = generateVertices64 rng mcos msin numPoints 0 k0 []
      in vs)"

subsection \<open>A sample session\<close>

text \<open>
  A three-vertex shape in its initial orientation, and a state in which a liquify drag is
  under way with the pointer last seen at \<open>(440, 150)\<close>. The theorems are instantiated
  at these values below.
\<close>

definition sampleShape :: ShapeConfig where
  "sampleShape =
     \<lparr> vertices = [\<lparr> x = 450, y = 150 \<rparr>, \<lparr> x = 480, y = 150 \<rparr>, \<lparr> x = 550, y = 150 \<rparr>],
       points = computeBezierPoints
                  [\<lparr> x = 450, y = 150 \<rparr>, \<lparr> x = 480, y = 150 \<rparr>, \<lparr> x = 550, y = 150 \<rparr>],
       color = ''#80cbfa'', rotation = 0, flipX = False, flipY = False \<rparr>"

definition sampleState :: AppState where
  "sampleState =
     \<lparr> shape = Some sampleShape, isInteracting = True, mode = liquify,
       lastPos = Some \<lparr> x = 440, y = 150 \<rparr>,
       topCanvas = Some \<lparr> context2d = Some [] \<rparr> \<rparr>"

text \<open>Three vertices on the line \<open>y = 0\<close>, for the binary64 embedding.\<close>

definition sampleVertices64 :: "Vertex64 list" where
  "sampleVertices64 =
     [\<lparr> x64 = Some 0, y64 = Some 0 \<rparr>, \<lparr> x64 = Some 1, y64 = Some 0 \<rparr>,
      \<lparr> x64 = Some 13, y64 = Some 0 \<rparr>]"

section \<open>Auxiliary facts\<close>

subsection \<open>Index arithmetic\<close>

lemma smod_nonneg: "0 \<le> a \<Longrightarrow> 0 < b \<Longrightarrow> (a::int) smod b = a mod b"
  by (cases "a = 0") (simp_all add: signed_modulo_int_def sgn_if)

lemma prev_index_in_range:
  assumes "i < length vs"
  shows "0 \<le> (int i - 1 + int (length vs)) smod int (length vs)"
    and "nat ((int i - 1 + int (length vs)) smod int (length vs)) < length vs"
proof -
  have n: "0 < int (length vs)" using assms by (cases vs) simp_all
  have a: "0 \<le> int i - 1 + int (length vs)" using assms by simp
  show "0 \<le> (int i - 1 + int (length vs)) smod int (length vs)"
    using n a by (simp add: smod_nonneg)
  have "(int i - 1 + int (length vs)) mod int (length vs) < int (length vs)"
    using n by (rule pos_mod_bound)
  then show "nat ((int i - 1 + int (length vs)) smod int (length vs)) < length vs"
    using n a by (simp add: smod_nonneg nat_less_iff)
qed

lemma next_index_in_range:
  assumes "i < length vs"
  shows "0 \<le> (int i + 1) smod int (length vs)"
    and "nat ((int i + 1) smod int (length vs)) < length vs"
proof -
  have n: "0 < int (length vs)" using assms by (cases vs) simp_all
  have a: "0 \<le> int i + 1" by simp
  show "0 \<le> (int i + 1) smod int (length vs)"
    using n a by (simp add: smod_nonneg)
  have "(int i + 1) mod int (length vs) < int (length vs)"
    using n by (rule pos_mod_bound)
  then show "nat ((int i + 1) smod int (length vs)) < length vs"
    using n a by (simp add: smod_nonneg nat_less_iff)
qed

text \<open>The two neighbour reads, in the arithmetic of the natural numbers.\<close>

lemma prev_neighbour:
  assumes "i < length vs"
  shows "at_index vs ((int i - 1 + int (length vs)) smod int (length vs))
         = vs ! ((i + length vs - 1) mod length vs)"
proof -
  have n: "0 < int (length vs)" using assms by (cases vs) simp_all
  have a: "0 \<le> int i - 1 + int (length vs)" using assms by simp
  have e: "int i - 1 + int (length vs) = int (i + length vs - 1)"
    using assms by (simp add: of_nat_diff)
  have "(int i - 1 + int (length vs)) smod int (length vs)
        = int ((i + length vs - 1) mod length vs)"
    using n a by (simp add: smod_nonneg e zmod_int del: of_nat_add)
  then show ?thesis by (simp add: at_index_def)
qed

lemma next_neighbour:
  assumes "i < length vs"
  shows "at_index vs ((int i + 1) smod int (length vs)) = vs ! ((i + 1) mod length vs)"
proof -
  have n: "0 < int (length vs)" using assms by (cases vs) simp_all
  have "(int i + 1) smod int (length vs) = int ((i + 1) mod length vs)"
    using n by (simp add: smod_nonneg zmod_int add.commute)
  then show ?thesis by (simp add: at_index_def)
qed

lemma length_computeBezierPoints: "length (computeBezierPoints vs) = length vs"
  by (simp add: computeBezierPoints_def)

lemma nth_computeBezierPoints:
  "i < length vs \<Longrightarrow> computeBezierPoints vs ! i = bezierPoint vs (int i) (vs ! i)"
  by (simp add: computeBezierPoints_def nth_enumerate_eq)

subsection \<open>The forward transform and its inverse\<close>

lemma drawShape_transform_point:
  "transformPoint (drawShape_transform sh) p =
     (let th = (of_int (rotation sh) * pi) / 180;
          fx = (if flipX sh then - 1 else 1) * (x p - CANVAS_SIZE / 2);
          fy = (if flipY sh then - 1 else 1) * (y p - CANVAS_SIZE / 2)
      in \<lparr> x = cos th * fx - sin th * fy + CANVAS_SIZE / 2,
           y = sin th * fx + cos th * fy + CANVAS_SIZE / 2 \<rparr>)"
  by (simp add: drawShape_transform_def ctx_translate_def ctx_scale_def ctx_rotate_def
      multiply_def identityMatrix_def transformPoint_def Let_def algebra_simps)

lemma rotate_back:
  fixes u v t :: real
  shows "(cos t * u - sin t * v) * cos (- t) - (sin t * u + cos t * v) * sin (- t) = u"
    and "(cos t * u - sin t * v) * sin (- t) + (sin t * u + cos t * v) * cos (- t) = v"
proof -
  have sc: "cos t * cos t + sin t * sin t = 1"
    using sin_cos_squared_add2 [of t] by (simp add: power2_eq_square)
  have e: "w * (cos t * cos t) + w * (sin t * sin t) = w" for w :: real
    using sc by (simp add: distrib_left [symmetric])
  show "(cos t * u - sin t * v) * cos (- t) - (sin t * u + cos t * v) * sin (- t) = u"
    by (simp add: algebra_simps e)
  show "(cos t * u - sin t * v) * sin (- t) + (sin t * u + cos t * v) * cos (- t) = v"
    by (simp add: algebra_simps e)
qed

subsection \<open>One liquify step\<close>

lemma transformCoords_update:
  "transformCoords (s\<lparr> vertices := vs, points := pts \<rparr>) p = transformCoords s p"
  by (simp add: transformCoords_def)

lemma handleMouseMove_liquify:
  assumes "isInteracting st" and "topCanvas st = Some cv" and "mode st = liquify"
    and "shape st = Some s" and "lastPos st = Some lp"
  shows "handleMouseMove coords st =
         st\<lparr> shape := Some (s\<lparr> vertices := newVertices s coords lp,
                                points := computeBezierPoints (newVertices s coords lp) \<rparr>),
             lastPos := Some coords \<rparr>"
  using assms by (simp add: handleMouseMove_def setShape_liquify_def)

lemma handleMouseMove_shape_unchanged:
  assumes "lastPos st = None \<or> shape st = None \<or> \<not> isInteracting st \<or> mode st \<noteq> liquify
           \<or> topCanvas st = None"
  shows "shape (handleMouseMove coords st) = shape st"
  using assms
  by (cases "mode st")
     (auto simp add: handleMouseMove_def setShape_liquify_def split: option.splits)

lemma handleMouseDown_shape: "shape (handleMouseDown coords st) = shape st"
  by (simp add: handleMouseDown_def Let_def split: option.splits)

lemma handleMouseUp_shape: "shape (handleMouseUp st) = shape st"
  by (simp add: handleMouseUp_def)

lemma nth_newVertices:
  "i < length (vertices s) \<Longrightarrow>
   newVertices s coords lp ! i =
     liquifyVertex (transformCoords s coords)
       (x (transformCoords s coords) - x (transformCoords s lp))
       (y (transformCoords s coords) - y (transformCoords s lp)) (vertices s ! i)"
  by (simp add: newVertices_def Let_def)

lemma length_newVertices: "length (newVertices s coords lp) = length (vertices s)"
  by (simp add: newVertices_def Let_def)

subsection \<open>Sessions of pointer events\<close>

lemma handleMouseDown_set_shape:
  "handleMouseDown c (st\<lparr> shape := X \<rparr>) = (handleMouseDown c st)\<lparr> shape := X \<rparr>"
  by (simp add: handleMouseDown_def Let_def split: option.splits)

lemma handleMouseUp_set_shape:
  "handleMouseUp (st\<lparr> shape := X \<rparr>) = (handleMouseUp st)\<lparr> shape := X \<rparr>"
  by (simp add: handleMouseUp_def)

lemma handleMouseMove_idle_set_shape:
  assumes "\<not> (isInteracting st \<and> topCanvas st \<noteq> None \<and> mode st = liquify \<and> lastPos st \<noteq> None)"
  shows "handleMouseMove c (st\<lparr> shape := Some s \<rparr>) =
         (handleMouseMove c (st\<lparr> shape := None \<rparr>))\<lparr> shape := Some s \<rparr>"
  using assms
  by (cases "mode st")
     (auto simp add: handleMouseMove_def split: option.splits)

lemma handleMouseMove_active_set_shape:
  assumes "isInteracting st" and "topCanvas st = Some cv" and "mode st = liquify"
    and "lastPos st = Some lp"
  shows "handleMouseMove c (st\<lparr> shape := Some (s\<lparr> vertices := vs, points := pts \<rparr>) \<rparr>) =
         (st\<lparr> lastPos := Some c \<rparr>)
           \<lparr> shape := Some (s\<lparr> vertices :=
                 map (liquifyVertex (transformCoords s c)
                       (x (transformCoords s c) - x (transformCoords s lp))
                       (y (transformCoords s c) - y (transformCoords s lp))) vs,
               points := computeBezierPoints
                 (map (liquifyVertex (transformCoords s c)
                       (x (transformCoords s c) - x (transformCoords s lp))
                       (y (transformCoords s c) - y (transformCoords s lp))) vs) \<rparr>) \<rparr>"
  using assms
  by (simp add: handleMouseMove_def setShape_liquify_def newVertices_def Let_def
      transformCoords_update)

lemma dispatch_uniform:
  "\<exists>st' G. \<forall>vs pts. \<exists>pts'.
     dispatch e (st\<lparr> shape := Some (s\<lparr> vertices := vs, points := pts \<rparr>) \<rparr>) =
       st'\<lparr> shape := Some (s\<lparr> vertices := map G vs, points := pts' \<rparr>) \<rparr>"
proof (cases e)
  case (Down c)
  have "\<forall>vs pts. \<exists>pts'.
      dispatch e (st\<lparr> shape := Some (s\<lparr> vertices := vs, points := pts \<rparr>) \<rparr>) =
      (handleMouseDown c st)\<lparr> shape := Some (s\<lparr> vertices := map (\<lambda>v. v) vs, points := pts' \<rparr>) \<rparr>"
    using Down by (auto simp add: handleMouseDown_set_shape)
  then show ?thesis by blast
next
  case Up
  have "\<forall>vs pts. \<exists>pts'.
      dispatch e (st\<lparr> shape := Some (s\<lparr> vertices := vs, points := pts \<rparr>) \<rparr>) =
      (handleMouseUp st)\<lparr> shape := Some (s\<lparr> vertices := map (\<lambda>v. v) vs, points := pts' \<rparr>) \<rparr>"
    using Up by (auto simp add: handleMouseUp_set_shape)
  then show ?thesis by blast
next
  case (Move c)
  show ?thesis
  proof (cases "isInteracting st \<and> topCanvas st \<noteq> None \<and> mode st = liquify \<and> lastPos st \<noteq> None")
    case True
    then obtain cv lp where a: "isInteracting st" "topCanvas st = Some cv" "mode st = liquify"
      "lastPos st = Some lp" by auto
    let ?G = "liquifyVertex (transformCoords s c)
                       (x (transformCoords s c) - x (transformCoords s lp))
                       (y (transformCoords s c) - y (transformCoords s lp))"
    have "\<forall>vs pts. \<exists>pts'.
      dispatch e (st\<lparr> shape := Some (s\<lparr> vertices := vs, points := pts \<rparr>) \<rparr>) =
      (st\<lparr> lastPos := Some c \<rparr>)\<lparr> shape := Some (s\<lparr> vertices := map ?G vs, points := pts' \<rparr>) \<rparr>"
      using Move handleMouseMove_active_set_shape [OF a] by auto
    then show ?thesis by blast
  next
    case False
    have "\<forall>vs pts. \<exists>pts'.
      dispatch e (st\<lparr> shape := Some (s\<lparr> vertices := vs, points := pts \<rparr>) \<rparr>) =
      (handleMouseMove c (st\<lparr> shape := None \<rparr>))
        \<lparr> shape := Some (s\<lparr> vertices := map (\<lambda>v. v) vs, points := pts' \<rparr>) \<rparr>"
      using Move handleMouseMove_idle_set_shape [OF False] by auto
    then show ?thesis by blast
  qed
qed

lemma runEvents_uniform:
  "\<exists>F. \<forall>vs pts. \<exists>s'.
     shape (runEvents evs (st\<lparr> shape := Some (s\<lparr> vertices := vs, points := pts \<rparr>) \<rparr>)) = Some s' \<and>
     vertices s' = map F vs"
proof (induction evs arbitrary: st)
  case Nil
  have "\<forall>vs pts. \<exists>s'.
     shape (runEvents [] (st\<lparr> shape := Some (s\<lparr> vertices := vs, points := pts \<rparr>) \<rparr>)) = Some s' \<and>
     vertices s' = map (\<lambda>v. v) vs"
    by (simp add: runEvents_def)
  then show ?case by blast
next
  case (Cons e evs)
  obtain st' G where step: "\<forall>vs pts. \<exists>pts'.
     dispatch e (st\<lparr> shape := Some (s\<lparr> vertices := vs, points := pts \<rparr>) \<rparr>) =
       st'\<lparr> shape := Some (s\<lparr> vertices := map G vs, points := pts' \<rparr>) \<rparr>"
    using dispatch_uniform by blast
  obtain F where rest: "\<forall>vs pts. \<exists>s'.
     shape (runEvents evs (st'\<lparr> shape := Some (s\<lparr> vertices := vs, points := pts \<rparr>) \<rparr>)) = Some s' \<and>
     vertices s' = map F vs"
    using Cons.IH by blast
  have "\<forall>vs pts. \<exists>s'.
     shape (runEvents (e # evs) (st\<lparr> shape := Some (s\<lparr> vertices := vs, points := pts \<rparr>) \<rparr>)) = Some s' \<and>
     vertices s' = map (F \<circ> G) vs"
  proof (intro allI)
    fix vs pts
    obtain pts' where d: "dispatch e (st\<lparr> shape := Some (s\<lparr> vertices := vs, points := pts \<rparr>) \<rparr>) =
       st'\<lparr> shape := Some (s\<lparr> vertices := map G vs, points := pts' \<rparr>) \<rparr>"
      using step by blast
    obtain s' where r: "shape (runEvents evs (st'\<lparr> shape := Some (s\<lparr> vertices := map G vs, points := pts' \<rparr>) \<rparr>)) = Some s'"
      "vertices s' = map F (map G vs)"
      using rest by blast
    show "\<exists>s'. shape (runEvents (e # evs) (st\<lparr> shape := Some (s\<lparr> vertices := vs, points := pts \<rparr>) \<rparr>)) = Some s' \<and>
     vertices s' = map (F \<circ> G) vs"
      using d r by (simp add: runEvents_def)
  qed
  then show ?case by blast
qed

subsection \<open>Quarter turns\<close>

lemma quarter_turn_mod:
  "0 \<le> r \<Longrightarrow> ((r::int) mod 360 + 90) smod 360 = (r + 90) mod 360"
proof -
  assume "0 \<le> r"
  have "0 \<le> r mod 360 + 90" by (simp add: add_nonneg_nonneg)
  then have "(r mod 360 + 90) smod 360 = (r mod 360 + 90) mod 360"
    by (simp add: smod_nonneg)
  then show ?thesis by (simp add: mod_add_left_eq)
qed

lemma four_quarter_turns:
  assumes "0 \<le> r" and "r < 360"
  shows "((((r + 90) smod 360 + 90) smod 360 + 90) smod 360 + 90) smod 360 = (r::int)"
proof -
  have 1: "(r + 90) smod 360 = (r + 90) mod 360"
    using assms(1) by (simp add: smod_nonneg)
  have 2: "((r + 90) mod 360 + 90) smod 360 = (r + 180) mod 360"
    using assms(1) quarter_turn_mod [of "r + 90"] by (simp add: add.commute)
  have 3: "((r + 180) mod 360 + 90) smod 360 = (r + 270) mod 360"
    using assms(1) quarter_turn_mod [of "r + 180"] by (simp add: add.commute)
  have 4: "((r + 270) mod 360 + 90) smod 360 = (r + 360) mod 360"
    using assms(1) quarter_turn_mod [of "r + 270"] by (simp add: add.commute)
  have "(r + 360) mod 360 = r" using assms by simp
  then show ?thesis unfolding 1 2 3 4 .
qed

subsection \<open>The generator\<close>

lemma generateVertices_unfold:
  "nat (n - i) = m \<Longrightarrow>
   generateVertices rng n i k vs =
     (vs @ map (\<lambda>j. \<lparr> x = centerX + cos ((of_int (i + int j) / of_int n) * pi * 2) *
                               (baseRadius + (rng (k + j) - 0.5) * baseRadius * 1.2),
                     y = centerY + sin ((of_int (i + int j) / of_int n) * pi * 2) *
                               (baseRadius + (rng (k + j) - 0.5) * baseRadius * 1.2) \<rparr>)
            [0..<m],
      k + m)"
proof (induction m arbitrary: i k vs)
  case 0
  then have "\<not> i < n" by simp
  then show ?case by (subst generateVertices.simps) simp
next
  case (Suc m)
  then have lt: "i < n" and rest: "nat (n - (i + 1)) = m" by simp_all
  have a: "i + 1 + int j = i + int (Suc j)" for j by simp
  show ?case
    apply (subst generateVertices.simps)
    apply (simp only: lt if_True Let_def Math_random_def prod.case Suc.IH [OF rest])
    apply (simp only: map_upt_Suc [where n = m] a add_Suc_shift)
    apply simp
    done
qed

lemma vertices_generatedShape:
  "vertices (generatedShape rng) =
     map (\<lambda>j. \<lparr> x = centerX + cos ((of_int (int j) / of_int (\<lfloor>rng 0 * 4\<rfloor> + 6)) * pi * 2) *
                       (baseRadius + (rng (Suc j) - 0.5) * baseRadius * 1.2),
               y = centerY + sin ((of_int (int j) / of_int (\<lfloor>rng 0 * 4\<rfloor> + 6)) * pi * 2) *
                       (baseRadius + (rng (Suc j) - 0.5) * baseRadius * 1.2) \<rparr>)
         [0..<nat (\<lfloor>rng 0 * 4\<rfloor> + 6)]"
  by (simp add: generatedShape_def Math_random_def Let_def
      generateVertices_unfold [where m = "nat (\<lfloor>rng 0 * 4\<rfloor> + 6)"])

lemma count_in_range:
  assumes "0 \<le> u" and "u < (1::real)"
  shows "0 \<le> \<lfloor>u * 4\<rfloor>" and "\<lfloor>u * 4\<rfloor> \<le> 3"
proof -
  show "0 \<le> \<lfloor>u * 4\<rfloor>" using assms(1) by simp
  have "u * 4 < 4" using assms(2) by simp
  then have "\<lfloor>u * 4\<rfloor> < 4" by (simp add: floor_less_iff)
  then show "\<lfloor>u * 4\<rfloor> \<le> 3" by simp
qed

lemma count_interval:
  fixes u :: real
  shows "(\<lfloor>u * 4\<rfloor> = int j) = (real j / 4 \<le> u \<and> u < (real j + 1) / 4)"
proof -
  have "(\<lfloor>u * 4\<rfloor> = int j) = (of_int (int j) \<le> u * 4 \<and> u * 4 < of_int (int j) + 1)"
    by (rule floor_eq_iff)
  also have "\<dots> = (real j / 4 \<le> u \<and> u < (real j + 1) / 4)"
    by (simp add: field_simps)
  finally show ?thesis .
qed

lemma color_index_in_range:
  assumes "0 \<le> u" and "u < (1::real)"
  shows "0 \<le> \<lfloor>u * of_nat (length blobColors)\<rfloor>"
    and "nat \<lfloor>u * of_nat (length blobColors)\<rfloor> < length blobColors"
proof -
  have len: "length blobColors = 7" by (simp add: blobColors_def)
  show "0 \<le> \<lfloor>u * of_nat (length blobColors)\<rfloor>" using assms(1) by (simp add: len)
  have "u * 7 < 7" using assms(2) by simp
  then have "\<lfloor>u * 7\<rfloor> < 7" by (simp add: floor_less_iff)
  moreover have "0 \<le> \<lfloor>u * 7\<rfloor>" using assms(1) by simp
  ultimately have "nat \<lfloor>u * 7\<rfloor> < 7" by linarith
  then show "nat \<lfloor>u * of_nat (length blobColors)\<rfloor> < length blobColors"
    by (simp add: len)
qed

lemma length_vertices_generatedShape:
  "length (vertices (generatedShape rng)) = nat (\<lfloor>rng 0 * 4\<rfloor> + 6)"
  by (simp add: vertices_generatedShape)

lemma generatedShape_fields:
  "points (generatedShape rng) = computeBezierPoints (vertices (generatedShape rng))"
  "color (generatedShape rng) =
     at_index blobColors
       \<lfloor>rng (Suc (length (vertices (generatedShape rng)))) * of_nat (length blobColors)\<rfloor>"
  "rotation (generatedShape rng) = 0"
  "flipX (generatedShape rng) = False"
  "flipY (generatedShape rng) = False"
  unfolding length_vertices_generatedShape
  by (simp_all add: generatedShape_def Math_random_def Let_def
      generateVertices_unfold [where m = "nat (\<lfloor>rng 0 * 4\<rfloor> + 6)"])

subsection \<open>The sample session\<close>

lemma sqrt_900: "sqrt 900 = 30"
  by (rule real_sqrt_unique) simp_all

lemma sqrt_10000: "sqrt 10000 = 100"
  by (rule real_sqrt_unique) simp_all

lemma sample_local:
  "transformCoords sampleShape p = p"
  by (simp add: transformCoords_def sampleShape_def Let_def)

subsection \<open>Rounding to binary64\<close>

lemma roundTiesToEven_error: "\<bar>of_int (roundTiesToEven q) - q\<bar> \<le> 1 / 2"
  unfolding roundTiesToEven_def Let_def by (auto; linarith)

lemma roundTiesToEven_lower: "of_int k \<le> q \<Longrightarrow> k \<le> roundTiesToEven q"
proof -
  assume "of_int k \<le> q"
  then have "k \<le> \<lfloor>q\<rfloor>" by (simp add: le_floor_iff)
  then show ?thesis unfolding roundTiesToEven_def Let_def by auto
qed

lemma roundTiesToEven_upper: "q \<le> of_int k \<Longrightarrow> roundTiesToEven q \<le> k"
proof -
  assume a: "q \<le> of_int k"
  have f: "\<lfloor>q\<rfloor> \<le> k" using a by (simp add: floor_le_iff)
  have g: "\<lfloor>q\<rfloor> + 1 \<le> k" if "q - of_int \<lfloor>q\<rfloor> \<ge> 1 / 2"
  proof -
    have "of_int \<lfloor>q\<rfloor> < q" using that by linarith
    then have "of_int \<lfloor>q\<rfloor> < (of_int k :: real)" using a by linarith
    then have "\<lfloor>q\<rfloor> < k" by simp
    then show ?thesis by simp
  qed
  show ?thesis
    unfolding roundTiesToEven_def Let_def using f g by (auto simp: not_less)
qed

lemma powr_powi:
  "(2::real) powr (of_int z) = 2 powi z"
  "(2::real) powr (of_int z + 1) = 2 powi (z + 1)"
proof -
  show "(2::real) powr (of_int z) = 2 powi z" by (simp add: powr_real_of_int')
  have "(2::real) powr (of_int (z + 1)) = 2 powi (z + 1)"
    by (rule powr_real_of_int') simp_all
  then show "(2::real) powr (of_int z + 1) = 2 powi (z + 1)" by simp
qed

lemma floor_log2_iff:
  assumes "0 < w"
  shows "(\<lfloor>log 2 w\<rfloor> = e) = (2 powi e \<le> w \<and> w < 2 powi (e + 1))"
  using floor_log_eq_powr_iff [OF assms, where b = 2 and k = e]
  by (simp add: powr_powi)

lemma exponent64_bounds:
  assumes "r \<noteq> 0"
  shows "2 powi \<lfloor>log 2 \<bar>r\<bar>\<rfloor> \<le> \<bar>r\<bar>" and "\<bar>r\<bar> < 2 powi (\<lfloor>log 2 \<bar>r\<bar>\<rfloor> + 1)"
proof -
  have pos: "0 < \<bar>r\<bar>" using assms by simp
  show "2 powi \<lfloor>log 2 \<bar>r\<bar>\<rfloor> \<le> \<bar>r\<bar>" and "\<bar>r\<bar> < 2 powi (\<lfloor>log 2 \<bar>r\<bar>\<rfloor> + 1)"
    using floor_log2_iff [OF pos, of "\<lfloor>log 2 \<bar>r\<bar>\<rfloor>"] by simp_all
qed

lemma floor_log2_eq:
  assumes "2 powi e \<le> \<bar>r\<bar>" and "\<bar>r\<bar> < 2 powi (e + 1)"
  shows "\<lfloor>log 2 \<bar>r\<bar>\<rfloor> = e"
proof -
  have "0 < (2::real) powi e" by simp
  then have pos: "0 < \<bar>r\<bar>" using assms(1) by linarith
  show ?thesis using floor_log2_iff [OF pos, of e] assms by simp
qed

lemma round64_eval:
  assumes "2 powi e \<le> \<bar>r\<bar>" and "\<bar>r\<bar> < 2 powi (e + 1)" and "- 1022 \<le> e"
    and "roundTiesToEven (r / 2 powi (e - 52)) = n"
    and "c = of_int n * 2 powi (e - 52)"
    and "\<bar>c\<bar> < 2 ^ 1024"
  shows "round64 r = Some c"
proof -
  have "0 < (2::real) powi e" by simp
  then have "0 < \<bar>r\<bar>" using assms(1) by linarith
  then have nz: "r \<noteq> 0" by simp
  have ex: "exponent64 r = e"
    using floor_log2_eq [OF assms(1,2)] assms(3) by (simp add: exponent64_def)
  show ?thesis
    using nz assms(4,5,6) by (simp add: round64_def ulp64_def ex Let_def)
qed

lemma ulp64_as_power:
  assumes "exponent64 r \<le> 52"
  shows "ulp64 r = 1 / 2 ^ nat (52 - exponent64 r)"
proof -
  have "exponent64 r - 52 = - int (nat (52 - exponent64 r))" using assms by simp
  then have "ulp64 r = 2 powi (- int (nat (52 - exponent64 r)))"
    by (simp only: ulp64_def)
  also have "\<dots> = 1 / 2 ^ nat (52 - exponent64 r)"
    by (simp only: power_int_minus_divide power_int_of_nat)
  finally show ?thesis .
qed

lemma exponent64_small:
  assumes "\<bar>r\<bar> < 2 ^ 52" and "r \<noteq> 0"
  shows "exponent64 r \<le> 51"
proof -
  have "\<lfloor>log 2 \<bar>r\<bar>\<rfloor> < 52"
  proof (rule ccontr)
    assume "\<not> \<lfloor>log 2 \<bar>r\<bar>\<rfloor> < 52"
    then have "(52::int) \<le> \<lfloor>log 2 \<bar>r\<bar>\<rfloor>" by simp
    then have "(2::real) powi 52 \<le> 2 powi \<lfloor>log 2 \<bar>r\<bar>\<rfloor>"
      by (intro power_int_increasing) simp_all
    also have "\<dots> \<le> \<bar>r\<bar>" using exponent64_bounds(1) [OF assms(2)] .
    finally show False using assms(1) by simp
  qed
  then show ?thesis by (simp add: exponent64_def)
qed

lemma round64_between:
  assumes lo: "of_int l / 2 \<le> r" and hi: "r \<le> of_int m / 2"
    and l: "\<bar>l\<bar> < 2 ^ 53" and m: "\<bar>m\<bar> < 2 ^ 53"
  shows "\<exists>c. round64 r = Some c \<and> of_int l / 2 \<le> c \<and> c \<le> of_int m / 2"
proof (cases "r = 0")
  case True
  then show ?thesis using lo hi by (simp add: round64_def)
next
  case False
  have lr: "\<bar>real_of_int l\<bar> < 2 ^ 53" and mr: "\<bar>real_of_int m\<bar> < 2 ^ 53"
  proof -
    have "real_of_int \<bar>l\<bar> < real_of_int (2 ^ 53)" using l by (simp only: of_int_less_iff)
    then show "\<bar>real_of_int l\<bar> < 2 ^ 53" by simp
    have "real_of_int \<bar>m\<bar> < real_of_int (2 ^ 53)" using m by (simp only: of_int_less_iff)
    then show "\<bar>real_of_int m\<bar> < 2 ^ 53" by simp
  qed
  have small: "\<bar>r\<bar> < 2 ^ 52" using lo hi lr mr by (simp add: abs_if split: if_splits)
  have e: "exponent64 r \<le> 51" by (rule exponent64_small [OF small False])
  define j where "j = nat (52 - exponent64 r)"
  have j: "1 \<le> j" using e by (simp add: j_def)
  have ulp: "ulp64 r = 1 / 2 ^ j"
    unfolding j_def by (rule ulp64_as_power) (use e in simp)
  define c where "c = of_int (roundTiesToEven (r / ulp64 r)) * ulp64 r"
  have q: "r / ulp64 r = r * 2 ^ j" by (simp add: ulp)
  have half: "(2::real) ^ j = 2 * 2 ^ (j - 1)"
    using j by (cases j) simp_all
  have up: "c \<le> of_int m / 2"
  proof -
    have "r * 2 ^ j \<le> of_int (m * 2 ^ (j - 1))"
      using hi by (simp add: half field_simps)
    then have "roundTiesToEven (r / ulp64 r) \<le> m * 2 ^ (j - 1)"
      unfolding q by (rule roundTiesToEven_upper)
    then have "real_of_int (roundTiesToEven (r / ulp64 r)) \<le> real_of_int (m * 2 ^ (j - 1))"
      by (simp only: of_int_le_iff)
    then have "c \<le> real_of_int (m * 2 ^ (j - 1)) / 2 ^ j"
      by (simp add: c_def ulp divide_right_mono)
    also have "\<dots> = of_int m / 2" by (simp add: half)
    finally show ?thesis .
  qed
  have low: "of_int l / 2 \<le> c"
  proof -
    have "of_int (l * 2 ^ (j - 1)) \<le> r * 2 ^ j"
      using lo by (simp add: half field_simps)
    then have "l * 2 ^ (j - 1) \<le> roundTiesToEven (r / ulp64 r)"
      unfolding q by (rule roundTiesToEven_lower)
    then have "real_of_int (l * 2 ^ (j - 1)) \<le> real_of_int (roundTiesToEven (r / ulp64 r))"
      by (simp only: of_int_le_iff)
    then have "real_of_int (l * 2 ^ (j - 1)) / 2 ^ j \<le> c"
      by (simp add: c_def ulp divide_right_mono)
    moreover have "real_of_int (l * 2 ^ (j - 1)) / 2 ^ j = of_int l / 2" by (simp add: half)
    ultimately show ?thesis by (simp only:)
  qed
  have "\<bar>c\<bar> < 2 ^ 52" using low up lr mr by (simp add: abs_if split: if_splits)
  also have "(2::real) ^ 52 < 2 ^ 1024" by simp
  finally have fin: "\<bar>c\<bar> < 2 ^ 1024" .
  have "round64 r = Some c"
    using False fin by (simp add: round64_def Let_def c_def)
  then show ?thesis using low up by blast
qed

lemma round64_error:
  assumes "round64 r = Some c"
  shows "\<bar>c - r\<bar> \<le> \<bar>c\<bar> / 2 ^ 53 + 1 / 2 ^ 1075"
proof (cases "r = 0")
  case True
  then show ?thesis using assms by (simp add: round64_def)
next
  case False
  define u where "u = ulp64 r"
  define n where "n = roundTiesToEven (r / u)"
  have upos: "0 < u" by (simp add: u_def ulp64_def)
  have c: "c = of_int n * u"
    using assms False by (simp add: round64_def Let_def n_def u_def split: if_splits)
  have "\<bar>of_int n - r / u\<bar> \<le> 1 / 2"
    unfolding n_def by (rule roundTiesToEven_error)
  then have "\<bar>of_int n - r / u\<bar> * u \<le> 1 / 2 * u"
    using upos by (intro mult_right_mono) simp_all
  moreover have "\<bar>of_int n - r / u\<bar> * u = \<bar>c - r\<bar>"
  proof -
    have "\<bar>of_int n - r / u\<bar> * u = \<bar>(of_int n - r / u) * u\<bar>"
      using upos by (simp add: abs_mult)
    also have "(of_int n - r / u) * u = c - r"
      using upos by (simp add: c field_simps)
    finally show ?thesis .
  qed
  ultimately have err: "\<bar>c - r\<bar> \<le> u / 2" by simp
  show ?thesis
  proof (cases "- 1022 \<le> \<lfloor>log 2 \<bar>r\<bar>\<rfloor>")
    case True
    define e where "e = \<lfloor>log 2 \<bar>r\<bar>\<rfloor>"
    have ex: "exponent64 r = e" using True by (simp add: exponent64_def e_def)
    have u: "u = 2 powi (e - 52)" by (simp add: u_def ulp64_def ex)
    have pe: "2 powi e = u * 2 ^ 52"
    proof -
      have "(2::real) powi e = 2 powi ((e - 52) + 52)" by simp
      also have "\<dots> = 2 powi (e - 52) * 2 powi 52"
        by (subst power_int_add) simp_all
      finally show ?thesis by (simp add: u)
    qed
    have big: "2 powi e \<le> \<bar>r\<bar>"
      unfolding e_def by (rule exponent64_bounds(1) [OF False])
    have "2 ^ 52 \<le> \<bar>of_int n :: real\<bar>"
    proof (cases "0 \<le> r")
      case True
      have "of_int (2 ^ 52) \<le> r / u"
        using big True upos by (simp add: pe field_simps)
      then have "2 ^ 52 \<le> n" unfolding n_def by (rule roundTiesToEven_lower)
      then have "real_of_int (2 ^ 52) \<le> of_int n" by (simp only: of_int_le_iff)
      then show ?thesis by simp
    next
      case False
      then have "r / u \<le> of_int (- (2 ^ 52))"
        using big upos by (simp add: pe field_simps)
      then have "n \<le> - (2 ^ 52)" unfolding n_def by (rule roundTiesToEven_upper)
      then have "real_of_int n \<le> of_int (- (2 ^ 52))" by (simp only: of_int_le_iff)
      then show ?thesis by simp
    qed
    then have "2 ^ 52 * u \<le> \<bar>of_int n :: real\<bar> * u"
      using upos by (intro mult_right_mono) simp_all
    also have "\<bar>of_int n :: real\<bar> * u = \<bar>c\<bar>"
      using upos by (simp add: c abs_mult)
    finally have "u / 2 \<le> \<bar>c\<bar> / 2 ^ 53" by simp
    then show ?thesis using err by simp
  next
    case False
    then have ex: "exponent64 r = - 1022" by (simp add: exponent64_def)
    have "u = 2 powi (- 1074)" by (simp add: u_def ulp64_def ex)
    then have "u / 2 = 1 / 2 ^ 1075" by simp
    moreover have "0 \<le> \<bar>c\<bar> / 2 ^ 53" by simp
    ultimately show ?thesis using err by linarith
  qed
qed

lemma arith64_Some:
  "add64 (Some p) (Some q) = round64 (p + q)"
  "sub64 (Some p) (Some q) = round64 (p - q)"
  "mul64 (Some p) (Some q) = round64 (p * q)"
  by (simp_all add: add64_def sub64_def mul64_def)

lemma round64_zero: "round64 0 = Some 0"
  by (simp add: round64_def)

lemma round64_small_integers:
  "round64 2 = Some 2" "round64 150 = Some 150" "round64 300 = Some 300"
  "round64 450 = Some 450"
proof -
  show "round64 2 = Some 2"
    by (rule round64_eval [where e = 1 and n = "2 ^ 52"]) (simp_all add: roundTiesToEven_def)
  show "round64 150 = Some 150"
    by (rule round64_eval [where e = 7 and n = "150 * 2 ^ 45"])
       (simp_all add: roundTiesToEven_def)
  show "round64 300 = Some 300"
    by (rule round64_eval [where e = 8 and n = "300 * 2 ^ 44"])
       (simp_all add: roundTiesToEven_def)
  show "round64 450 = Some 450"
    by (rule round64_eval [where e = 8 and n = "450 * 2 ^ 44"])
       (simp_all add: roundTiesToEven_def)
qed

lemma round64_quarter: "round64 (1 / 4) = Some (1 / 4)"
  by (rule round64_eval [where e = "- 2" and n = "2 ^ 52"]) (simp_all add: roundTiesToEven_def)

lemma round64_half: "round64 (1 / 2) = Some (1 / 2)"
  by (rule round64_eval [where e = "- 1" and n = "2 ^ 52"]) (simp_all add: roundTiesToEven_def)

lemma round64_1_2: "round64 (6 / 5) = Some (5404319552844595 / 4503599627370496)"
  by (rule round64_eval [where e = 0 and n = 5404319552844595])
     (simp_all add: roundTiesToEven_def)

lemma round64_0_3: "round64 (3 / 10) = Some (5404319552844595 / 18014398509481984)"
  by (rule round64_eval [where e = "- 2" and n = 5404319552844595])
     (simp_all add: roundTiesToEven_def)

lemma tension64_value: "tension64 = Some (5404319552844595 / 18014398509481984)"
  using round64_0_3 by (simp add: tension64_def)

subsection \<open>The handles over binary64\<close>

lemma length_computeBezierPoints64: "length (computeBezierPoints64 vs) = length vs"
  by (simp add: computeBezierPoints64_def)

lemma nth_computeBezierPoints64:
  "i < length vs \<Longrightarrow> computeBezierPoints64 vs ! i = bezierPoint64 vs (int i) (vs ! i)"
  by (simp add: computeBezierPoints64_def nth_enumerate_eq)

lemma handle_pair:
  assumes "sub64 X D = Some c1" and "add64 X D = Some c2"
  shows "\<exists>xv. X = Some xv \<and>
           \<bar>c1 + c2 - 2 * xv\<bar> \<le> (\<bar>c1\<bar> + \<bar>c2\<bar>) / 2 ^ 53 + 1 / 2 ^ 1074"
proof -
  obtain xv d where X: "X = Some xv" and D: "D = Some d"
    using assms(1) by (auto simp add: sub64_def split: option.splits)
  have r1: "round64 (xv - d) = Some c1" using assms(1) by (simp add: sub64_def X D)
  have r2: "round64 (xv + d) = Some c2" using assms(2) by (simp add: add64_def X D)
  have e1: "\<bar>c1 - (xv - d)\<bar> \<le> \<bar>c1\<bar> / 2 ^ 53 + 1 / 2 ^ 1075" by (rule round64_error [OF r1])
  have e2: "\<bar>c2 - (xv + d)\<bar> \<le> \<bar>c2\<bar> / 2 ^ 53 + 1 / 2 ^ 1075" by (rule round64_error [OF r2])
  have "c1 + c2 - 2 * xv = (c1 - (xv - d)) + (c2 - (xv + d))" by simp
  then have "\<bar>c1 + c2 - 2 * xv\<bar> \<le> \<bar>c1 - (xv - d)\<bar> + \<bar>c2 - (xv + d)\<bar>"
    by (simp only: abs_triangle_ineq)
  also have "\<dots> \<le> (\<bar>c1\<bar> / 2 ^ 53 + 1 / 2 ^ 1075) + (\<bar>c2\<bar> / 2 ^ 53 + 1 / 2 ^ 1075)"
    using e1 e2 by (rule add_mono)
  also have "\<dots> = (\<bar>c1\<bar> + \<bar>c2\<bar>) / 2 ^ 53 + 1 / 2 ^ 1074"
    by (simp add: add_divide_distrib)
  finally show ?thesis using X by blast
qed

lemma sample64_point:
  "computeBezierPoints64 sampleVertices64 ! 1 =
     \<lparr> x64 = Some 1, y64 = Some 0,
       cp1x64 = sub64 (Some 1) (mul64 (sub64 (Some 13) (Some 0)) tension64),
       cp1y64 = sub64 (Some 0) (mul64 (sub64 (Some 0) (Some 0)) tension64),
       cp2x64 = add64 (Some 1) (mul64 (sub64 (Some 13) (Some 0)) tension64),
       cp2y64 = add64 (Some 0) (mul64 (sub64 (Some 0) (Some 0)) tension64) \<rparr>"
proof -
  have "computeBezierPoints64 sampleVertices64 ! 1
           = bezierPoint64 sampleVertices64 1 (sampleVertices64 ! 1)"
    using nth_computeBezierPoints64 [of 1 sampleVertices64] by (simp add: sampleVertices64_def)
  then show ?thesis
    by (simp add: bezierPoint64_def Let_def sampleVertices64_def at_index_def
        signed_modulo_int_def)
qed

lemma sample64_offset:
  "mul64 (sub64 (Some 13) (Some 0)) tension64 = Some (8782019273372467 / 2251799813685248)"
proof -
  have a: "round64 (13 - 0) = Some 13"
    by (rule round64_eval [where e = 3 and n = "13 * 2 ^ 49"]) (simp_all add: roundTiesToEven_def)
  have b: "round64 (13 * (5404319552844595 / 18014398509481984))
           = Some (8782019273372467 / 2251799813685248)"
    by (rule round64_eval [where e = 1 and n = 8782019273372467])
       (simp_all add: roundTiesToEven_def)
  show ?thesis
    unfolding tension64_value arith64_Some a b ..
qed

lemma sample64_handles:
  "x64 (computeBezierPoints64 sampleVertices64 ! 1) = Some 1"
  "cp1x64 (computeBezierPoints64 sampleVertices64 ! 1)
     = Some (- (6530219459687219 / 2251799813685248))"
  "cp2x64 (computeBezierPoints64 sampleVertices64 ! 1)
     = Some (5516909543528858 / 1125899906842624)"
proof -
  have lo: "round64 (1 - 8782019273372467 / 2251799813685248)
            = Some (- (6530219459687219 / 2251799813685248))"
    by (rule round64_eval [where e = 1 and n = "- 6530219459687219"])
       (simp_all add: roundTiesToEven_def)
  have hi: "round64 (1 + 8782019273372467 / 2251799813685248)
            = Some (5516909543528858 / 1125899906842624)"
    by (rule round64_eval [where e = 2 and n = 5516909543528858])
       (simp_all add: roundTiesToEven_def)
  show "x64 (computeBezierPoints64 sampleVertices64 ! 1) = Some 1"
    unfolding sample64_point by simp
  have "cp1x64 (computeBezierPoints64 sampleVertices64 ! 1)
        = sub64 (Some 1) (mul64 (sub64 (Some 13) (Some 0)) tension64)"
    unfolding sample64_point by simp
  then show "cp1x64 (computeBezierPoints64 sampleVertices64 ! 1)
     = Some (- (6530219459687219 / 2251799813685248))"
    unfolding sample64_offset unfolding arith64_Some lo .
  have "cp2x64 (computeBezierPoints64 sampleVertices64 ! 1)
        = add64 (Some 1) (mul64 (sub64 (Some 13) (Some 0)) tension64)"
    unfolding sample64_point by simp
  then show "cp2x64 (computeBezierPoints64 sampleVertices64 ! 1)
     = Some (5516909543528858 / 1125899906842624)"
    unfolding sample64_offset unfolding arith64_Some hi .
qed

lemma sample64_sum:
  "add64 (Some (- (6530219459687219 / 2251799813685248)))
         (Some (5516909543528858 / 1125899906842624))
     = Some (2 + 1 / 2 ^ 51)"
  "mul64 (Some 2) (Some 1) = Some 2"
proof -
  have s: "round64 (- (6530219459687219 / 2251799813685248) + 5516909543528858 / 1125899906842624)
       = Some (2 + 1 / 2 ^ 51)"
    by (rule round64_eval [where e = 1 and n = 4503599627370497])
       (simp_all add: roundTiesToEven_def)
  show "add64 (Some (- (6530219459687219 / 2251799813685248)))
         (Some (5516909543528858 / 1125899906842624))
     = Some (2 + 1 / 2 ^ 51)"
    unfolding arith64_Some s ..
  have "round64 (2 * 1) = Some 2"
    by (rule round64_eval [where e = 1 and n = "2 ^ 52"]) (simp_all add: roundTiesToEven_def)
  then show "mul64 (Some 2) (Some 1) = Some 2" unfolding arith64_Some .
qed

subsection \<open>The generated vertices over binary64\<close>

lemma baseRadius64_value: "baseRadius64 = Some 150"
proof -
  have "round64 150 = Some 150"
    by (rule round64_eval [where e = 7 and n = "150 * 2 ^ 45"])
       (simp_all add: roundTiesToEven_def)
  then show ?thesis
    by (simp add: baseRadius64_def mul64_def round64_quarter CANVAS_SIZE_def)
qed

lemma center64_value: "centerX64 = Some 300" "centerY64 = Some 300"
proof -
  have "round64 300 = Some 300"
    by (rule round64_eval [where e = 8 and n = "300 * 2 ^ 44"])
       (simp_all add: roundTiesToEven_def)
  then show "centerX64 = Some 300" "centerY64 = Some 300"
    by (simp_all add: centerX64_def centerY64_def div64_def CANVAS_SIZE_def)
qed

lemma radius64_bounds:
  assumes "0 \<le> u" and "u < 1"
  shows "\<exists>r. radius64 u = Some r \<and> 60 \<le> r \<and> r \<le> 240"
proof -
  obtain t1 where t1: "round64 (u - 1 / 2) = Some t1" "- 1 / 2 \<le> t1" "t1 \<le> 1 / 2"
    using round64_between [of "- 1" "u - 1 / 2" 1] assms by auto
  obtain t2 where t2: "round64 (t1 * 150) = Some t2" "- 75 \<le> t2" "t2 \<le> 75"
    using round64_between [of "- 150" "t1 * 150" 150] t1(2,3) by auto
  let ?c = "5404319552844595 / 4503599627370496 :: real"
  have c: "0 \<le> ?c" "?c \<le> 6 / 5" by simp_all
  have "\<bar>t2 * ?c\<bar> \<le> 75 * (6 / 5)"
    unfolding abs_mult using t2(2,3) c by (intro mult_mono) simp_all
  then have b3: "- 90 \<le> t2 * ?c" "t2 * ?c \<le> 90" by (simp_all add: abs_le_iff)
  obtain t3 where t3: "round64 (t2 * ?c) = Some t3" "- 90 \<le> t3" "t3 \<le> 90"
    using round64_between [of "- 180" "t2 * ?c" 180] b3 by auto
  obtain r where r: "round64 (150 + t3) = Some r" "60 \<le> r" "r \<le> 240"
    using round64_between [of 120 "150 + t3" 480] t3(2,3) by auto
  have s1: "sub64 (Some u) (round64 0.5) = Some t1"
    using t1(1) by (simp add: sub64_def round64_half)
  have s2: "mul64 (Some t1) baseRadius64 = Some t2"
    using t2(1) by (simp add: mul64_def baseRadius64_value)
  have s3: "mul64 (Some t2) (round64 1.2) = Some t3"
    using t3(1) by (simp add: mul64_def round64_1_2)
  have s4: "add64 baseRadius64 (Some t3) = Some r"
    using r(1) by (simp add: add64_def baseRadius64_value)
  have "radius64 u = Some r"
    unfolding radius64_def s1 s2 s3 s4 ..
  then show ?thesis using r(2,3) by blast
qed

lemma coordinate64_bounds:
  assumes "\<bar>c\<bar> \<le> 1" and "60 \<le> r" and "r \<le> 240"
  shows "\<exists>v. add64 (Some 300) (mul64 (Some c) (Some r)) = Some v \<and> 60 \<le> v \<and> v \<le> 540"
proof -
  have "\<bar>c * r\<bar> \<le> 1 * 240"
    unfolding abs_mult using assms by (intro mult_mono) simp_all
  then have b: "- 240 \<le> c * r" "c * r \<le> 240" by (simp_all add: abs_le_iff)
  obtain p where p: "round64 (c * r) = Some p" "- 240 \<le> p" "p \<le> 240"
    using round64_between [of "- 480" "c * r" 480] b by auto
  obtain v where v: "round64 (300 + p) = Some v" "60 \<le> v" "v \<le> 540"
    using round64_between [of 120 "300 + p" 1080] p(2,3) by auto
  have "add64 (Some 300) (mul64 (Some c) (Some r)) = Some v"
    by (simp add: add64_def mul64_def p(1) v(1))
  then show ?thesis using v(2,3) by blast
qed

lemma angle64_finite:
  assumes "0 \<le> i" and "i < n"
  shows "\<exists>a. angle64 i n = Some a"
proof -
  have n: "n \<noteq> 0" "0 < real_of_int n" using assms by simp_all
  have q: "0 \<le> real_of_int i / real_of_int n" "real_of_int i / real_of_int n \<le> 1"
    using assms by simp_all
  obtain a1 where a1: "round64 (real_of_int i / real_of_int n) = Some a1" "0 \<le> a1" "a1 \<le> 1"
    using round64_between [of 0 "real_of_int i / real_of_int n" 2] q by auto
  have pi: "0 \<le> PI64" "PI64 \<le> 4" by (simp_all add: PI64_def)
  have "a1 * PI64 \<le> 1 * 4" using a1(2,3) pi by (intro mult_mono) simp_all
  moreover have "0 \<le> a1 * PI64" using a1(2) pi(1) by simp
  ultimately obtain a2 where a2: "round64 (a1 * PI64) = Some a2" "0 \<le> a2" "a2 \<le> 4"
    using round64_between [of 0 "a1 * PI64" 8] by auto
  obtain a3 where a3: "round64 (a2 * 2) = Some a3"
    using round64_between [of 0 "a2 * 2" 16] a2(2,3) by auto
  show ?thesis
    using n(1) by (simp add: angle64_def div64_def mul64_def a1(1) a2(1) a3)
qed

lemma generateVertices64_unfold:
  "nat (n - i) = m \<Longrightarrow>
   generateVertices64 rng mcos msin n i k vs =
     (vs @ map (\<lambda>j. \<lparr> x64 = add64 centerX64
                          (mul64 (Math_fn mcos (angle64 (i + int j) n)) (radius64 (rng (k + j)))),
                     y64 = add64 centerY64
                          (mul64 (Math_fn msin (angle64 (i + int j) n)) (radius64 (rng (k + j)))) \<rparr>)
            [0..<m],
      k + m)"
proof (induction m arbitrary: i k vs)
  case 0
  then have "\<not> i < n" by simp
  then show ?case by (subst generateVertices64.simps) simp
next
  case (Suc m)
  then have lt: "i < n" and rest: "nat (n - (i + 1)) = m" by simp_all
  have a: "i + 1 + int j = i + int (Suc j)" for j by simp
  show ?case
    apply (subst generateVertices64.simps)
    apply (simp only: lt if_True Let_def Math_random_def prod.case Suc.IH [OF rest])
    apply (simp only: map_upt_Suc [where n = m] a add_Suc_shift)
    apply simp
    done
qed

lemma generatedVertices64_eq:
  "generatedVertices64 rng mcos msin =
     map (\<lambda>j. \<lparr> x64 = add64 centerX64
                   (mul64 (Math_fn mcos (angle64 (int j) (numPoints64 (rng 0))))
                          (radius64 (rng (Suc j)))),
               y64 = add64 centerY64
                   (mul64 (Math_fn msin (angle64 (int j) (numPoints64 (rng 0))))
                          (radius64 (rng (Suc j)))) \<rparr>)
         [0..<nat (numPoints64 (rng 0))]"
  by (simp add: generatedVertices64_def Math_random_def Let_def
      generateVertices64_unfold [where m = "nat (numPoints64 (rng 0))"])

lemma extreme_draw_radius:
  "round64 (1 - 1 / 2 ^ 53) = Some (1 - 1 / 2 ^ 53)"
  "radius64 (1 - 1 / 2 ^ 53) = Some 240"
proof -
  show "round64 (1 - 1 / 2 ^ 53) = Some (1 - 1 / 2 ^ 53)"
    by (rule round64_eval [where e = "- 1" and n = 9007199254740991])
       (simp_all add: roundTiesToEven_def)
  have s1: "round64 (1 - 1 / 2 ^ 53 - 1 / 2) = Some (4503599627370495 / 9007199254740992)"
    by (rule round64_eval [where e = "- 2" and n = 9007199254740990])
       (simp_all add: roundTiesToEven_def)
  have s2: "round64 (4503599627370495 / 9007199254740992 * 150)
            = Some (5277655813324799 / 70368744177664)"
    by (rule round64_eval [where e = 6 and n = 5277655813324799])
       (simp_all add: roundTiesToEven_def)
  have s3: "round64 (5277655813324799 / 70368744177664 * (5404319552844595 / 4503599627370496))
            = Some (6333186975989759 / 70368744177664)"
    by (rule round64_eval [where e = 6 and n = 6333186975989759])
       (simp_all add: roundTiesToEven_def)
  have s4: "round64 (150 + 6333186975989759 / 70368744177664) = Some 240"
    by (rule round64_eval [where e = 7 and n = 8444249301319680])
       (simp_all add: roundTiesToEven_def)
  have a1: "sub64 (Some (1 - 1 / 2 ^ 53)) (round64 0.5) = Some (4503599627370495 / 9007199254740992)"
    using s1 by (simp add: sub64_def round64_half)
  have a2: "mul64 (Some (4503599627370495 / 9007199254740992)) baseRadius64
            = Some (5277655813324799 / 70368744177664)"
    using s2 by (simp add: mul64_def baseRadius64_value)
  have a3: "mul64 (Some (5277655813324799 / 70368744177664)) (round64 1.2)
            = Some (6333186975989759 / 70368744177664)"
    using s3 by (simp add: mul64_def round64_1_2)
  have a4: "add64 baseRadius64 (Some (6333186975989759 / 70368744177664)) = Some 240"
    using s4 by (simp add: add64_def baseRadius64_value)
  show "radius64 (1 - 1 / 2 ^ 53) = Some 240"
    unfolding radius64_def a1 a2 a3 a4 ..
qed

lemma middle_draw:
  "numPoints64 (1 / 2) = 8" "radius64 (1 / 2) = Some 150" "angle64 0 8 = Some 0"
proof -
  show "numPoints64 (1 / 2) = 8"
    by (simp add: numPoints64_def arith64_Some round64_small_integers)
  show "radius64 (1 / 2) = Some 150"
    by (simp add: radius64_def baseRadius64_value round64_half round64_1_2 arith64_Some
        round64_zero round64_small_integers)
  show "angle64 0 8 = Some 0"
    by (simp add: angle64_def div64_def arith64_Some round64_zero)
qed

section \<open>The claims\<close>

text \<open>
  C1. Round trip of the rigid transform: a local point sent through the transformation
  that \<^verbatim>\<open>drawShape\<close> installs on the context (translate to the centre, rotate by
  \<open>rotation\<close> degrees, scale by \<open>(flipX ? -1 : 1, flipY ? -1 : 1)\<close>, translate back) and
  then through \<^verbatim>\<open>transformCoords\<close> is the original point. It holds for every rotation
  and both flags, so in particular for the 32 combinations of a rotation in
  \<open>{0, 90, 180, 270}\<close> with the two flips.
\<close>

theorem transform_round_trip:
  "transformCoords sh (transformPoint (drawShape_transform sh) p) = p"
proof -
  define th where "th = (of_int (rotation sh) * pi) / 180"
  define fx where "fx = (if flipX sh then - 1 else 1) * (x p - CANVAS_SIZE / 2)"
  define fy where "fy = (if flipY sh then - 1 else 1) * (y p - CANVAS_SIZE / 2)"
  have rad: "(- of_int (rotation sh) * pi) / 180 = - th" by (simp add: th_def)
  have fwd: "transformPoint (drawShape_transform sh) p =
      \<lparr> x = cos th * fx - sin th * fy + CANVAS_SIZE / 2,
        y = sin th * fx + cos th * fy + CANVAS_SIZE / 2 \<rparr>"
    by (simp add: drawShape_transform_point Let_def th_def fx_def fy_def)
  have tx: "x (transformPoint (drawShape_transform sh) p) - CANVAS_SIZE / 2
            = cos th * fx - sin th * fy"
    by (simp add: fwd)
  have ty: "y (transformPoint (drawShape_transform sh) p) - CANVAS_SIZE / 2
            = sin th * fx + cos th * fy"
    by (simp add: fwd)
  have inv: "transformCoords sh (transformPoint (drawShape_transform sh) p) =
      \<lparr> x = (if flipX sh then - fx else fx) + CANVAS_SIZE / 2,
        y = (if flipY sh then - fy else fy) + CANVAS_SIZE / 2 \<rparr>"
    unfolding transformCoords_def Let_def tx ty rad rotate_back ..
  show ?thesis
    unfolding inv by (simp add: fx_def fy_def)
qed

text \<open>
  C2. Liquify falloff: in a liquify step, with \<open>d\<close> the local displacement of the
  cursor, radius 60 and strength 0.8, a vertex whose distance to the local cursor
  position is at least 60 is unchanged, and a vertex at distance \<open>dist < 60\<close> becomes
  \<open>v + d * ((1 - dist / 60) * 0.8)\<close>. At distance 0 it receives \<open>d * 0.8\<close>, at
  distance 30 it receives \<open>0.4 * d\<close>.
\<close>

theorem liquify_falloff:
  assumes "isInteracting st" and "topCanvas st = Some cv" and "mode st = liquify"
    and "shape st = Some s" and "lastPos st = Some lp" and "i < length (vertices s)"
  shows "\<exists>s'. shape (handleMouseMove coords st) = Some s' \<and>
           (let localCurr = transformCoords s coords;
                localPrev = transformCoords s lp;
                dx = x localCurr - x localPrev;
                dy = y localCurr - y localPrev;
                v = vertices s ! i;
                v' = vertices s' ! i;
                dist = sqrt ((x v - x localCurr)\<^sup>2 + (y v - y localCurr)\<^sup>2)
            in (60 \<le> dist \<longrightarrow> v' = v) \<and>
               (dist < 60 \<longrightarrow>
                  x v' = x v + dx * ((1 - dist / 60) * 0.8) \<and>
                  y v' = y v + dy * ((1 - dist / 60) * 0.8)) \<and>
               (dist = 0 \<longrightarrow> x v' = x v + dx * 0.8 \<and> y v' = y v + dy * 0.8) \<and>
               (dist = 30 \<longrightarrow> x v' = x v + 0.4 * dx \<and> y v' = y v + 0.4 * dy))"
proof -
  let ?s' = "s\<lparr> vertices := newVertices s coords lp,
                 points := computeBezierPoints (newVertices s coords lp) \<rparr>"
  have sh: "shape (handleMouseMove coords st) = Some ?s'"
    using assms(1-5) by (simp add: handleMouseMove_liquify)
  have nth: "vertices ?s' ! i =
     liquifyVertex (transformCoords s coords)
       (x (transformCoords s coords) - x (transformCoords s lp))
       (y (transformCoords s coords) - y (transformCoords s lp)) (vertices s ! i)"
    using assms(6) by (simp add: nth_newVertices)
  show ?thesis
    apply (rule exI [of _ ?s'])
    apply (rule conjI [OF sh])
    unfolding Let_def nth
    apply (simp add: liquifyVertex_def LIQUIFY_RADIUS_def LIQUIFY_STRENGTH_def Let_def)
    done
qed

theorem liquify_falloff_witness:
  "isInteracting sampleState \<and>
   topCanvas sampleState = Some \<lparr> context2d = Some [] \<rparr> \<and>
   mode sampleState = liquify \<and>
   shape sampleState = Some sampleShape \<and>
   lastPos sampleState = Some \<lparr> x = 440, y = 150 \<rparr> \<and>
   2 < length (vertices sampleShape) \<and>
   (\<exists>s'. shape (handleMouseMove \<lparr> x = 450, y = 150 \<rparr> sampleState) = Some s' \<and>
         x (vertices s' ! 0) = 458 \<and> y (vertices s' ! 0) = 150 \<and>
         x (vertices s' ! 1) = 484 \<and> y (vertices s' ! 1) = 150 \<and>
         vertices s' ! 2 = \<lparr> x = 550, y = 150 \<rparr>)"
proof -
  have pre: "isInteracting sampleState"
    "topCanvas sampleState = Some \<lparr> context2d = Some [] \<rparr>"
    "mode sampleState = liquify"
    "shape sampleState = Some sampleShape"
    "lastPos sampleState = Some \<lparr> x = 440, y = 150 \<rparr>"
    by (simp_all add: sampleState_def)
  have len: "2 < length (vertices sampleShape)" "1 < length (vertices sampleShape)"
    "0 < length (vertices sampleShape)"
    by (simp_all add: sampleShape_def)
  have vs: "vertices sampleShape ! 0 = \<lparr> x = 450, y = 150 \<rparr>"
    "vertices sampleShape ! 1 = \<lparr> x = 480, y = 150 \<rparr>"
    "vertices sampleShape ! 2 = \<lparr> x = 550, y = 150 \<rparr>"
    by (simp_all add: sampleShape_def)
  obtain s0 where s0: "shape (handleMouseMove \<lparr> x = 450, y = 150 \<rparr> sampleState) = Some s0"
    "x (vertices s0 ! 0) = 458" "y (vertices s0 ! 0) = 150"
    using liquify_falloff [OF pre len(3), of "\<lparr> x = 450, y = 150 \<rparr>",
        unfolded Let_def sample_local vs]
    by auto
  obtain s1 where s1: "shape (handleMouseMove \<lparr> x = 450, y = 150 \<rparr> sampleState) = Some s1"
    "x (vertices s1 ! 1) = 484" "y (vertices s1 ! 1) = 150"
    using liquify_falloff [OF pre len(2), of "\<lparr> x = 450, y = 150 \<rparr>",
        unfolded Let_def sample_local vs]
    by (auto simp add: sqrt_900)
  obtain s2 where s2: "shape (handleMouseMove \<lparr> x = 450, y = 150 \<rparr> sampleState) = Some s2"
    "vertices s2 ! 2 = \<lparr> x = 550, y = 150 \<rparr>"
    using liquify_falloff [OF pre len(1), of "\<lparr> x = 450, y = 150 \<rparr>",
        unfolded Let_def sample_local vs]
    by (auto simp add: sqrt_10000)
  have "s1 = s0" "s2 = s0" using s0(1) s1(1) s2(1) by simp_all
  then show ?thesis using pre len(1) s0 s1 s2 by blast
qed

text \<open>
  C3. For a vertex sequence of length \<open>n \<ge> 3\<close> and an index \<open>i < n\<close>, with
  \<open>p = vertices[(i-1+n)%n]\<close>, \<open>q = vertices[(i+1)%n]\<close> and tension 0.3, the derived
  point \<open>i\<close> has \<open>cp1 = vertices[i] - (q - p) * 0.3\<close> and
  \<open>cp2 = vertices[i] + (q - p) * 0.3\<close>, coordinate by coordinate; it sits at
  \<open>vertices[i]\<close>, and the output is as long as the input. The function is a HOL
  function of its argument alone, which is what determinism without side effects means
  here.
\<close>

theorem computeBezierPoints_control_points:
  assumes "3 \<le> length vs" and "i < length vs"
  shows "length (computeBezierPoints vs) = length vs \<and>
         (let n = length vs;
              p = vs ! ((i + n - 1) mod n);
              q = vs ! ((i + 1) mod n);
              v = vs ! i;
              b = computeBezierPoints vs ! i
          in x b = x v \<and> y b = y v \<and>
             cp1x b = x v - (x q - x p) * 0.3 \<and>
             cp1y b = y v - (y q - y p) * 0.3 \<and>
             cp2x b = x v + (x q - x p) * 0.3 \<and>
             cp2y b = y v + (y q - y p) * 0.3)"
  using assms(2)
  by (simp add: length_computeBezierPoints nth_computeBezierPoints bezierPoint_def
      prev_neighbour next_neighbour tension_def Let_def)

theorem computeBezierPoints_control_points_witness:
  "3 \<le> length [\<lparr>x = 450, y = 150\<rparr>, \<lparr>x = 600, y = 300\<rparr>, \<lparr>x = 300, y = 500\<rparr>] \<and>
   (1::nat) < length [\<lparr>x = 450, y = 150\<rparr>, \<lparr>x = 600, y = 300\<rparr>, \<lparr>x = 300, y = 500\<rparr>] \<and>
   length (computeBezierPoints
     [\<lparr>x = 450, y = 150\<rparr>, \<lparr>x = 600, y = 300\<rparr>, \<lparr>x = 300, y = 500\<rparr>]) = 3 \<and>
   cp1x (computeBezierPoints
     [\<lparr>x = 450, y = 150\<rparr>, \<lparr>x = 600, y = 300\<rparr>, \<lparr>x = 300, y = 500\<rparr>] ! 1) = 645 \<and>
   cp2y (computeBezierPoints
     [\<lparr>x = 450, y = 150\<rparr>, \<lparr>x = 600, y = 300\<rparr>, \<lparr>x = 300, y = 500\<rparr>] ! 1) = 405"
  using computeBezierPoints_control_points
    [of "[\<lparr>x = 450, y = 150\<rparr>, \<lparr>x = 600, y = 300\<rparr>, \<lparr>x = 300, y = 500\<rparr>]" 1]
  by (simp add: Let_def)

text \<open>
  C4. Vertex-count invariance under liquify: after any session of pointer events (so
  after any sequence of liquify steps, whatever the cursor positions), the shape has as
  many vertices as before. Moreover the session acts on the vertex array as a \<open>map\<close>: one
  function \<open>F\<close>, fixed by the events and the rest of the state, sends the vertex at each
  index to the vertex at the same index of the result, whatever array the shape holds; no
  vertex is added, removed or moved to another index.
\<close>

theorem liquify_vertex_count_invariant:
  assumes "shape st = Some s"
  shows "(\<exists>s'. shape (runEvents evs st) = Some s' \<and>
               length (vertices s') = length (vertices s)) \<and>
         (\<exists>F. \<forall>vs. \<exists>s'.
               shape (runEvents evs (st\<lparr> shape := Some (s\<lparr> vertices := vs \<rparr>) \<rparr>)) = Some s' \<and>
               vertices s' = map F vs)"
proof -
  obtain F where F: "\<forall>vs pts. \<exists>s'.
     shape (runEvents evs (st\<lparr> shape := Some (s\<lparr> vertices := vs, points := pts \<rparr>) \<rparr>)) = Some s' \<and>
     vertices s' = map F vs"
    using runEvents_uniform by blast
  have st: "st\<lparr> shape := Some (s\<lparr> vertices := vertices s, points := points s \<rparr>) \<rparr> = st"
    using assms by simp
  have "\<exists>s'. shape (runEvents evs
            (st\<lparr> shape := Some (s\<lparr> vertices := vertices s, points := points s \<rparr>) \<rparr>)) = Some s' \<and>
          vertices s' = map F (vertices s)"
    using F by blast
  then obtain s' where "shape (runEvents evs st) = Some s'" "vertices s' = map F (vertices s)"
    unfolding st by blast
  then have one: "\<exists>s'. shape (runEvents evs st) = Some s' \<and>
               length (vertices s') = length (vertices s)"
    by simp
  have two: "\<forall>vs. \<exists>s'.
               shape (runEvents evs (st\<lparr> shape := Some (s\<lparr> vertices := vs \<rparr>) \<rparr>)) = Some s' \<and>
               vertices s' = map F vs"
  proof
    fix vs
    have e: "s\<lparr> vertices := vs \<rparr> = s\<lparr> vertices := vs, points := points s \<rparr>" by simp
    have long: "\<exists>s'. shape (runEvents evs
            (st\<lparr> shape := Some (s\<lparr> vertices := vs, points := points s \<rparr>) \<rparr>)) = Some s' \<and>
          vertices s' = map F vs"
      using F by blast
    show "\<exists>s'. shape (runEvents evs (st\<lparr> shape := Some (s\<lparr> vertices := vs \<rparr>) \<rparr>)) = Some s' \<and>
               vertices s' = map F vs"
      by (subst e) (rule long)
  qed
  show ?thesis using one two by blast
qed

theorem liquify_vertex_count_invariant_witness:
  "shape sampleState = Some sampleShape \<and>
   (\<exists>s'. shape (runEvents [Up, Down \<lparr> x = 440, y = 150 \<rparr>, Move \<lparr> x = 450, y = 150 \<rparr>,
                           Move \<lparr> x = 470, y = 160 \<rparr>, Up] sampleState) = Some s' \<and>
         length (vertices s') = 3)"
proof -
  have pre: "shape sampleState = Some sampleShape" by (simp add: sampleState_def)
  have len: "length (vertices sampleShape) = 3" by (simp add: sampleShape_def)
  show ?thesis
    using liquify_vertex_count_invariant [OF pre] pre unfolding len by blast
qed

text \<open>
  C5. Liquify frame condition: a liquify step stores a shape that is the old one with the
  fields \<open>vertices\<close> and \<open>points\<close> replaced; \<open>color\<close>, \<open>rotation\<close>, \<open>flipX\<close> and
  \<open>flipY\<close> are those of the input shape.
\<close>

theorem liquify_frame:
  assumes "isInteracting st" and "topCanvas st = Some cv" and "mode st = liquify"
    and "shape st = Some s" and "lastPos st = Some lp"
  shows "\<exists>s'. shape (handleMouseMove coords st) = Some s' \<and>
           s' = s\<lparr> vertices := vertices s', points := points s' \<rparr> \<and>
           vertices s' = newVertices s coords lp \<and>
           points s' = computeBezierPoints (vertices s') \<and>
           color s' = color s \<and> rotation s' = rotation s \<and>
           flipX s' = flipX s \<and> flipY s' = flipY s"
  using assms by (simp add: handleMouseMove_liquify)

theorem liquify_frame_witness:
  "isInteracting sampleState \<and>
   topCanvas sampleState = Some \<lparr> context2d = Some [] \<rparr> \<and>
   mode sampleState = liquify \<and>
   shape sampleState = Some sampleShape \<and>
   lastPos sampleState = Some \<lparr> x = 440, y = 150 \<rparr> \<and>
   (\<exists>s'. shape (handleMouseMove \<lparr> x = 450, y = 150 \<rparr> sampleState) = Some s' \<and>
         color s' = ''#80cbfa'' \<and> rotation s' = 0 \<and> \<not> flipX s' \<and> \<not> flipY s' \<and>
         length (vertices s') = 3 \<and> length (points s') = 3)"
proof -
  have pre: "isInteracting sampleState"
    "topCanvas sampleState = Some \<lparr> context2d = Some [] \<rparr>"
    "mode sampleState = liquify"
    "shape sampleState = Some sampleShape"
    "lastPos sampleState = Some \<lparr> x = 440, y = 150 \<rparr>"
    by (simp_all add: sampleState_def)
  have fields: "color sampleShape = ''#80cbfa''" "rotation sampleShape = 0"
    "\<not> flipX sampleShape" "\<not> flipY sampleShape" "length (vertices sampleShape) = 3"
    by (simp_all add: sampleShape_def)
  obtain s' where "shape (handleMouseMove \<lparr> x = 450, y = 150 \<rparr> sampleState) = Some s'"
    "vertices s' = newVertices sampleShape \<lparr> x = 450, y = 150 \<rparr> \<lparr> x = 440, y = 150 \<rparr>"
    "points s' = computeBezierPoints (vertices s')"
    "color s' = color sampleShape" "rotation s' = rotation sampleShape"
    "flipX s' = flipX sampleShape" "flipY s' = flipY sampleShape"
    using liquify_frame [OF pre, of "\<lparr> x = 450, y = 150 \<rparr>"] by blast
  then show ?thesis
    using pre fields by (simp add: length_newVertices length_computeBezierPoints)
qed

text \<open>
  C6. Shape generation: with every draw of \<^verbatim>\<open>Math.random()\<close> in \<open>[0, 1)\<close>, the
  generator takes a vertex count \<open>n = floor (4 * u) + 6\<close> in \<open>{6, 7, 8, 9}\<close>, each count
  being taken on one quarter of the unit interval; it places vertex \<open>i\<close> at angle
  \<open>(i / n) * 2 * pi\<close> around \<open>(300, 300)\<close> at radius \<open>150 + (u - 0.5) * 150 * 1.2\<close>,
  \<open>u\<close> being a draw of its own for each vertex; it derives the control points, picks a
  colour of the palette and starts with \<open>rotation = 0\<close>, \<open>flipX = false\<close>,
  \<open>flipY = false\<close>.
\<close>

theorem generateRandomShape_construction:
  assumes "\<forall>k. 0 \<le> rng k \<and> rng k < 1"
  shows "\<exists>s. shape (generateRandomShape rng st) = Some s \<and>
           (let n = length (vertices s)
            in n \<in> {6, 7, 8, 9} \<and>
               int n = \<lfloor>rng 0 * 4\<rfloor> + 6 \<and>
               (\<forall>j \<in> {0, 1, 2, 3}.
                  (n = 6 + j) = (real j / 4 \<le> rng 0 \<and> rng 0 < (real j + 1) / 4)) \<and>
               (\<forall>i < n.
                  vertices s ! i =
                    \<lparr> x = 300 + cos (real i / real n * 2 * pi) *
                                 (150 + (rng (Suc i) - 0.5) * 150 * 1.2),
                      y = 300 + sin (real i / real n * 2 * pi) *
                                 (150 + (rng (Suc i) - 0.5) * 150 * 1.2) \<rparr>) \<and>
               points s = computeBezierPoints (vertices s) \<and>
               color s \<in> set blobColors \<and>
               rotation s = 0 \<and> \<not> flipX s \<and> \<not> flipY s)"
proof -
  let ?s = "generatedShape rng"
  let ?n = "length (vertices ?s)"
  have u0: "0 \<le> rng 0" "rng 0 < 1" using assms by simp_all
  have fl: "0 \<le> \<lfloor>rng 0 * 4\<rfloor>" "\<lfloor>rng 0 * 4\<rfloor> \<le> 3"
    using count_in_range [OF u0] by simp_all
  have n: "int ?n = \<lfloor>rng 0 * 4\<rfloor> + 6"
    using fl by (simp add: length_vertices_generatedShape)
  have rn: "real ?n = of_int (\<lfloor>rng 0 * 4\<rfloor> + 6)"
    using n by (metis of_int_of_nat_eq)
  have range: "?n \<in> {6, 7, 8, 9}"
  proof -
    have "6 \<le> ?n" "?n \<le> 9" using n fl by linarith+
    then show ?thesis by (simp add: insert_iff) linarith
  qed
  have uniform: "\<forall>j \<in> {0, 1, 2, 3}.
      (?n = 6 + j) = (real j / 4 \<le> rng 0 \<and> rng 0 < (real j + 1) / 4)"
  proof
    fix j :: nat
    assume "j \<in> {0, 1, 2, 3}"
    have "(?n = 6 + j) = (\<lfloor>rng 0 * 4\<rfloor> = int j)" using n by linarith
    then show "(?n = 6 + j) = (real j / 4 \<le> rng 0 \<and> rng 0 < (real j + 1) / 4)"
      by (simp only: count_interval)
  qed
  have verts: "\<forall>i < ?n.
      vertices ?s ! i =
        \<lparr> x = 300 + cos (real i / real ?n * 2 * pi) * (150 + (rng (Suc i) - 0.5) * 150 * 1.2),
          y = 300 + sin (real i / real ?n * 2 * pi) * (150 + (rng (Suc i) - 0.5) * 150 * 1.2) \<rparr>"
  proof (intro allI impI)
    fix i
    assume i: "i < ?n"
    then have i': "i < nat (\<lfloor>rng 0 * 4\<rfloor> + 6)"
      by (simp add: length_vertices_generatedShape)
    show "vertices ?s ! i =
        \<lparr> x = 300 + cos (real i / real ?n * 2 * pi) * (150 + (rng (Suc i) - 0.5) * 150 * 1.2),
          y = 300 + sin (real i / real ?n * 2 * pi) * (150 + (rng (Suc i) - 0.5) * 150 * 1.2) \<rparr>"
      unfolding rn
      using i' by (simp add: vertices_generatedShape centerX_def centerY_def baseRadius_def
          CANVAS_SIZE_def mult.commute mult.left_commute)
  qed
  have col: "color ?s \<in> set blobColors"
  proof -
    have uc: "0 \<le> rng (Suc ?n)" "rng (Suc ?n) < 1" using assms by simp_all
    show ?thesis
      unfolding generatedShape_fields(2) at_index_def
      by (rule nth_mem) (rule color_index_in_range(2) [OF uc])
  qed
  show ?thesis
    unfolding Let_def
  proof (intro exI [of _ ?s] conjI)
    show "shape (generateRandomShape rng st) = Some ?s"
      by (simp add: generateRandomShape_def)
    show "?n \<in> {6, 7, 8, 9}" by (rule range)
    show "int ?n = \<lfloor>rng 0 * 4\<rfloor> + 6" by (rule n)
    show "\<forall>j \<in> {0, 1, 2, 3}.
      (?n = 6 + j) = (real j / 4 \<le> rng 0 \<and> rng 0 < (real j + 1) / 4)" by (rule uniform)
    show "\<forall>i < ?n.
      vertices ?s ! i =
        \<lparr> x = 300 + cos (real i / real ?n * 2 * pi) * (150 + (rng (Suc i) - 0.5) * 150 * 1.2),
          y = 300 + sin (real i / real ?n * 2 * pi) * (150 + (rng (Suc i) - 0.5) * 150 * 1.2) \<rparr>"
      by (rule verts)
    show "points ?s = computeBezierPoints (vertices ?s)" by (rule generatedShape_fields(1))
    show "color ?s \<in> set blobColors" by (rule col)
    show "rotation ?s = 0" by (rule generatedShape_fields(3))
    show "\<not> flipX ?s" by (simp add: generatedShape_fields(4))
    show "\<not> flipY ?s" by (simp add: generatedShape_fields(5))
  qed
qed

theorem generateRandomShape_construction_witness:
  "(\<forall>k::nat. 0 \<le> (1 / 2 :: real) \<and> (1 / 2 :: real) < 1) \<and>
   (\<exists>s. shape (generateRandomShape (\<lambda>k. 1 / 2) sampleState) = Some s \<and>
        length (vertices s) = 8 \<and>
        vertices s ! 0 = \<lparr> x = 450, y = 300 \<rparr> \<and>
        vertices s ! 4 = \<lparr> x = 150, y = 300 \<rparr> \<and>
        rotation s = 0 \<and> \<not> flipX s \<and> \<not> flipY s)"
proof -
  have pre: "\<forall>k::nat. 0 \<le> (\<lambda>k. 1 / 2 :: real) k \<and> (\<lambda>k. 1 / 2 :: real) k < 1" by simp
  obtain s where s: "shape (generateRandomShape (\<lambda>k. 1 / 2) sampleState) = Some s"
    "int (length (vertices s)) = \<lfloor>(1 / 2 :: real) * 4\<rfloor> + 6"
    "\<forall>i < length (vertices s).
        vertices s ! i =
          \<lparr> x = 300 + cos (real i / real (length (vertices s)) * 2 * pi) *
                       (150 + ((1 / 2) - 0.5) * 150 * 1.2),
            y = 300 + sin (real i / real (length (vertices s)) * 2 * pi) *
                       (150 + ((1 / 2) - 0.5) * 150 * 1.2) \<rparr>"
    "rotation s = 0" "\<not> flipX s" "\<not> flipY s"
    using generateRandomShape_construction [OF pre, of sampleState]
    unfolding Let_def by blast
  have n: "length (vertices s) = 8" using s(2) by simp
  have v0: "vertices s ! 0 = \<lparr> x = 450, y = 300 \<rparr>"
    using s(3) [rule_format, of 0] by (simp add: n)
  have v4: "vertices s ! 4 = \<lparr> x = 150, y = 300 \<rparr>"
    using s(3) [rule_format, of 4] by (simp add: n)
  show ?thesis using s(1,4,5,6) n v0 v4 by simp
qed

text \<open>
  C7. Rotation arithmetic: on a shape whose rotation \<open>r\<close> satisfies \<open>0 \<le> r < 360\<close>
  (the generator starts at 0), \<^verbatim>\<open>rotateShape\<close> stores the shape with rotation
  \<open>(r + 90) mod 360\<close> and nothing else changed; four calls in a row give back the
  original shape; \<^verbatim>\<open>flipHorizontal\<close> and \<^verbatim>\<open>flipVertical\<close> negate \<open>flipX\<close> and
  \<open>flipY\<close> respectively and change nothing else.
\<close>

theorem rotate_and_flip:
  assumes "shape st = Some s" and "0 \<le> rotation s" and "rotation s < 360"
  shows "shape (rotateShape st) = Some (s\<lparr> rotation := (rotation s + 90) mod 360 \<rparr>) \<and>
         shape (rotateShape (rotateShape (rotateShape (rotateShape st)))) = Some s \<and>
         shape (flipHorizontal st) = Some (s\<lparr> flipX := \<not> flipX s \<rparr>) \<and>
         shape (flipVertical st) = Some (s\<lparr> flipY := \<not> flipY s \<rparr>)"
proof -
  have one: "shape (rotateShape st) = Some (s\<lparr> rotation := (rotation s + 90) mod 360 \<rparr>)"
    using assms by (simp add: rotateShape_def smod_nonneg)
  have four: "shape (rotateShape (rotateShape (rotateShape (rotateShape st)))) =
      Some (s\<lparr> rotation :=
        ((((rotation s + 90) smod 360 + 90) smod 360 + 90) smod 360 + 90) smod 360 \<rparr>)"
    using assms(1) by (simp add: rotateShape_def)
  have "shape (rotateShape (rotateShape (rotateShape (rotateShape st)))) = Some s"
    unfolding four four_quarter_turns [OF assms(2,3)] by simp
  moreover have "shape (flipHorizontal st) = Some (s\<lparr> flipX := \<not> flipX s \<rparr>)"
    using assms(1) by (simp add: flipHorizontal_def)
  moreover have "shape (flipVertical st) = Some (s\<lparr> flipY := \<not> flipY s \<rparr>)"
    using assms(1) by (simp add: flipVertical_def)
  ultimately show ?thesis using one by simp
qed

theorem rotate_and_flip_witness:
  "shape sampleState = Some sampleShape \<and> 0 \<le> rotation sampleShape \<and>
   rotation sampleShape < 360 \<and>
   shape (rotateShape sampleState) = Some (sampleShape\<lparr> rotation := 90 \<rparr>) \<and>
   shape (rotateShape (rotateShape (rotateShape (rotateShape sampleState)))) = Some sampleShape \<and>
   shape (flipHorizontal sampleState) = Some (sampleShape\<lparr> flipX := True \<rparr>) \<and>
   shape (flipVertical sampleState) = Some (sampleShape\<lparr> flipY := True \<rparr>)"
proof -
  have pre: "shape sampleState = Some sampleShape" "0 \<le> rotation sampleShape"
    "rotation sampleShape < 360"
    by (simp_all add: sampleState_def sampleShape_def)
  have fields: "rotation sampleShape = 0" "\<not> flipX sampleShape" "\<not> flipY sampleShape"
    by (simp_all add: sampleShape_def)
  show ?thesis
    using rotate_and_flip [OF pre] pre by (simp add: fields)
qed

text \<open>
  C8. Liquify no-op without history: a move event that arrives when no previous pointer
  position is recorded, or when there is no shape, or when no interaction is in progress,
  leaves the shape as it is.
\<close>

theorem liquify_noop_without_history:
  assumes "lastPos st = None \<or> shape st = None \<or> \<not> isInteracting st"
  shows "shape (handleMouseMove coords st) = shape st"
  using assms by (auto simp add: handleMouseMove_shape_unchanged)

theorem liquify_noop_without_history_witness:
  "lastPos (sampleState\<lparr> lastPos := None \<rparr>) = None \<and>
   shape (handleMouseMove \<lparr> x = 450, y = 150 \<rparr> (sampleState\<lparr> lastPos := None \<rparr>))
     = Some sampleShape"
  using liquify_noop_without_history
    [of "sampleState\<lparr> lastPos := None \<rparr>" "\<lparr> x = 450, y = 150 \<rparr>"]
  by (simp add: sampleState_def)

text \<open>
  C9, amended. For a vertex sequence of length \<open>n \<ge> 1\<close> and an index \<open>i < n\<close>, the
  derived point \<open>i\<close> has \<open>(x, y)\<close> exactly equal to \<open>vertices[i]\<close>, and \<open>vertices[i]\<close>
  is the midpoint of its two handles up to the binary64 rounding of each handle: whenever
  \<open>cp1x\<close> and \<open>cp2x\<close> are finite,
  \<open>\<bar>cp1x + cp2x - 2 * x\<bar> \<le> (\<bar>cp1x\<bar> + \<bar>cp2x\<bar>) / 2 ^ 53 + 1 / 2 ^ 1074\<close>, the sum taken
  exactly, and likewise for \<open>y\<close>.
\<close>

theorem tangent_symmetry_binary64:
  assumes "1 \<le> length vs" and "i < length vs"
  shows "x64 (computeBezierPoints64 vs ! i) = x64 (vs ! i) \<and>
         y64 (computeBezierPoints64 vs ! i) = y64 (vs ! i) \<and>
         (\<forall>c1 c2. cp1x64 (computeBezierPoints64 vs ! i) = Some c1 \<and>
                  cp2x64 (computeBezierPoints64 vs ! i) = Some c2 \<longrightarrow>
            (\<exists>xv. x64 (vs ! i) = Some xv \<and>
                  \<bar>c1 + c2 - 2 * xv\<bar> \<le> (\<bar>c1\<bar> + \<bar>c2\<bar>) / 2 ^ 53 + 1 / 2 ^ 1074)) \<and>
         (\<forall>c1 c2. cp1y64 (computeBezierPoints64 vs ! i) = Some c1 \<and>
                  cp2y64 (computeBezierPoints64 vs ! i) = Some c2 \<longrightarrow>
            (\<exists>yv. y64 (vs ! i) = Some yv \<and>
                  \<bar>c1 + c2 - 2 * yv\<bar> \<le> (\<bar>c1\<bar> + \<bar>c2\<bar>) / 2 ^ 53 + 1 / 2 ^ 1074))"
proof -
  let ?b = "computeBezierPoints64 vs ! i"
  obtain Dx Dy where f:
    "x64 ?b = x64 (vs ! i)" "y64 ?b = y64 (vs ! i)"
    "cp1x64 ?b = sub64 (x64 (vs ! i)) Dx" "cp2x64 ?b = add64 (x64 (vs ! i)) Dx"
    "cp1y64 ?b = sub64 (y64 (vs ! i)) Dy" "cp2y64 ?b = add64 (y64 (vs ! i)) Dy"
    using assms(2) by (simp add: nth_computeBezierPoints64 bezierPoint64_def Let_def)
  show ?thesis
    unfolding f
  proof (intro conjI allI impI)
    show "x64 (vs ! i) = x64 (vs ! i)" by (rule refl)
    show "y64 (vs ! i) = y64 (vs ! i)" by (rule refl)
  next
    fix c1 c2
    assume "sub64 (x64 (vs ! i)) Dx = Some c1 \<and> add64 (x64 (vs ! i)) Dx = Some c2"
    then show "\<exists>xv. x64 (vs ! i) = Some xv \<and>
                  \<bar>c1 + c2 - 2 * xv\<bar> \<le> (\<bar>c1\<bar> + \<bar>c2\<bar>) / 2 ^ 53 + 1 / 2 ^ 1074"
      using handle_pair [of "x64 (vs ! i)" Dx c1 c2] by blast
  next
    fix c1 c2
    assume "sub64 (y64 (vs ! i)) Dy = Some c1 \<and> add64 (y64 (vs ! i)) Dy = Some c2"
    then show "\<exists>yv. y64 (vs ! i) = Some yv \<and>
                  \<bar>c1 + c2 - 2 * yv\<bar> \<le> (\<bar>c1\<bar> + \<bar>c2\<bar>) / 2 ^ 53 + 1 / 2 ^ 1074"
      using handle_pair [of "y64 (vs ! i)" Dy c1 c2] by blast
  qed
qed

theorem tangent_symmetry_binary64_witness:
  "1 \<le> length sampleVertices64 \<and> 1 < length sampleVertices64 \<and>
   x64 (computeBezierPoints64 sampleVertices64 ! 1) = Some 1 \<and>
   y64 (computeBezierPoints64 sampleVertices64 ! 1) = Some 0 \<and>
   \<bar>- (6530219459687219 / 2251799813685248) + 5516909543528858 / 1125899906842624 - 2 * 1\<bar>
     \<le> (\<bar>- (6530219459687219 / 2251799813685248) :: real\<bar>
         + \<bar>5516909543528858 / 1125899906842624\<bar>) / 2 ^ 53 + 1 / 2 ^ 1074"
proof -
  have len: "1 \<le> length sampleVertices64" "1 < length sampleVertices64"
    by (simp_all add: sampleVertices64_def)
  have p: "sampleVertices64 ! 1 = \<lparr> x64 = Some 1, y64 = Some 0 \<rparr>"
    by (simp add: sampleVertices64_def)
  note t = tangent_symmetry_binary64 [OF len]
  have "x64 (computeBezierPoints64 sampleVertices64 ! 1) = x64 (sampleVertices64 ! 1)"
    "y64 (computeBezierPoints64 sampleVertices64 ! 1) = y64 (sampleVertices64 ! 1)"
    using t by blast+
  then have xy: "x64 (computeBezierPoints64 sampleVertices64 ! 1) = Some 1"
    "y64 (computeBezierPoints64 sampleVertices64 ! 1) = Some 0"
    unfolding p by simp_all
  have "\<exists>xv. x64 (sampleVertices64 ! 1) = Some xv \<and>
     \<bar>- (6530219459687219 / 2251799813685248) + 5516909543528858 / 1125899906842624 - 2 * xv\<bar>
     \<le> (\<bar>- (6530219459687219 / 2251799813685248) :: real\<bar>
         + \<bar>5516909543528858 / 1125899906842624\<bar>) / 2 ^ 53 + 1 / 2 ^ 1074"
    using t sample64_handles(2,3) by blast
  then have "\<bar>- (6530219459687219 / 2251799813685248) + 5516909543528858 / 1125899906842624 - 2 * 1\<bar>
     \<le> (\<bar>- (6530219459687219 / 2251799813685248) :: real\<bar>
         + \<bar>5516909543528858 / 1125899906842624\<bar>) / 2 ^ 53 + 1 / 2 ^ 1074"
    unfolding p by auto
  then show ?thesis using len xy by blast
qed

text \<open>
  C9 as stated, with \<open>cp1x + cp2x = 2 * x\<close> exactly, fails on the binary64 embedding: for
  the vertices \<open>(0, 0)\<close>, \<open>(1, 0)\<close>, \<open>(13, 0)\<close> the point at index 1 has
  \<open>cp1x + cp2x = 2 + 1 / 2 ^ 51\<close>, while \<open>2 * x = 2\<close>.
\<close>

theorem tangent_symmetry_counterexample:
  "x64 (computeBezierPoints64 sampleVertices64 ! 1) = Some 1 \<and>
   cp1x64 (computeBezierPoints64 sampleVertices64 ! 1)
     = Some (- (6530219459687219 / 2251799813685248)) \<and>
   cp2x64 (computeBezierPoints64 sampleVertices64 ! 1)
     = Some (5516909543528858 / 1125899906842624) \<and>
   add64 (cp1x64 (computeBezierPoints64 sampleVertices64 ! 1))
         (cp2x64 (computeBezierPoints64 sampleVertices64 ! 1))
     = Some (2 + 1 / 2 ^ 51) \<and>
   mul64 (Some 2) (x64 (computeBezierPoints64 sampleVertices64 ! 1)) = Some 2 \<and>
   add64 (cp1x64 (computeBezierPoints64 sampleVertices64 ! 1))
         (cp2x64 (computeBezierPoints64 sampleVertices64 ! 1))
     \<noteq> mul64 (Some 2) (x64 (computeBezierPoints64 sampleVertices64 ! 1))"
  unfolding sample64_handles sample64_sum by simp

text \<open>
  C10, amended. With every draw of \<^verbatim>\<open>Math.random()\<close> in \<open>[0, 1)\<close> and the values of
  \<^verbatim>\<open>Math.cos\<close> and \<^verbatim>\<open>Math.sin\<close> in \<open>[-1, 1]\<close>, the radius of every generated vertex
  is finite and lies in the closed interval \<open>[60, 240]\<close>, with \<open>baseRadius = 150\<close>; it is
  never negative or zero. Vertex \<open>i\<close> is the centre \<open>(300, 300)\<close> plus that radius times
  the cosine and the sine of its angle, and both its coordinates are finite and lie in
  \<open>[60, 540]\<close>, inside the canvas of side 600.
\<close>

theorem generated_vertex_bounds_binary64:
  assumes "\<forall>k. 0 \<le> rng k \<and> rng k < 1" and "\<forall>t. \<bar>mcos t\<bar> \<le> 1 \<and> \<bar>msin t\<bar> \<le> 1"
  shows "baseRadius64 = Some 150 \<and> centerX64 = Some 300 \<and> centerY64 = Some 300 \<and>
         (\<forall>i < length (generatedVertices64 rng mcos msin).
            \<exists>r a vx vy.
              radius64 (rng (Suc i)) = Some r \<and> 60 \<le> r \<and> r \<le> 240 \<and>
              angle64 (int i) (numPoints64 (rng 0)) = Some a \<and>
              generatedVertices64 rng mcos msin ! i =
                \<lparr> x64 = add64 centerX64 (mul64 (Some (mcos a)) (Some r)),
                  y64 = add64 centerY64 (mul64 (Some (msin a)) (Some r)) \<rparr> \<and>
              x64 (generatedVertices64 rng mcos msin ! i) = Some vx \<and>
              y64 (generatedVertices64 rng mcos msin ! i) = Some vy \<and>
              60 \<le> vx \<and> vx \<le> 540 \<and> 60 \<le> vy \<and> vy \<le> 540)"
proof (intro conjI allI impI)
  show "baseRadius64 = Some 150" by (rule baseRadius64_value)
  show "centerX64 = Some 300" by (rule center64_value(1))
  show "centerY64 = Some 300" by (rule center64_value(2))
next
  fix i
  let ?n = "numPoints64 (rng 0)"
  assume "i < length (generatedVertices64 rng mcos msin)"
  then have i: "i < nat ?n" by (simp add: generatedVertices64_eq)
  then have "int i < ?n" by simp
  then obtain a where a: "angle64 (int i) ?n = Some a"
    using angle64_finite [of "int i" ?n] by auto
  obtain r where r: "radius64 (rng (Suc i)) = Some r" "60 \<le> r" "r \<le> 240"
    using radius64_bounds [of "rng (Suc i)"] assms(1) by auto
  obtain vx where vx: "add64 (Some 300) (mul64 (Some (mcos a)) (Some r)) = Some vx"
    "60 \<le> vx" "vx \<le> 540"
    using coordinate64_bounds [of "mcos a" r] assms(2) r(2,3) by auto
  obtain vy where vy: "add64 (Some 300) (mul64 (Some (msin a)) (Some r)) = Some vy"
    "60 \<le> vy" "vy \<le> 540"
    using coordinate64_bounds [of "msin a" r] assms(2) r(2,3) by auto
  have v: "generatedVertices64 rng mcos msin ! i =
      \<lparr> x64 = add64 centerX64 (mul64 (Some (mcos a)) (Some r)),
        y64 = add64 centerY64 (mul64 (Some (msin a)) (Some r)) \<rparr>"
    using i by (simp add: generatedVertices64_eq a r(1) Math_fn_def)
  have "x64 (generatedVertices64 rng mcos msin ! i) = Some vx"
    "y64 (generatedVertices64 rng mcos msin ! i) = Some vy"
    unfolding v by (simp_all add: center64_value vx(1) vy(1))
  then show "\<exists>r a vx vy.
              radius64 (rng (Suc i)) = Some r \<and> 60 \<le> r \<and> r \<le> 240 \<and>
              angle64 (int i) (numPoints64 (rng 0)) = Some a \<and>
              generatedVertices64 rng mcos msin ! i =
                \<lparr> x64 = add64 centerX64 (mul64 (Some (mcos a)) (Some r)),
                  y64 = add64 centerY64 (mul64 (Some (msin a)) (Some r)) \<rparr> \<and>
              x64 (generatedVertices64 rng mcos msin ! i) = Some vx \<and>
              y64 (generatedVertices64 rng mcos msin ! i) = Some vy \<and>
              60 \<le> vx \<and> vx \<le> 540 \<and> 60 \<le> vy \<and> vy \<le> 540"
    using r a v vx(2,3) vy(2,3) by blast
qed

theorem generated_vertex_bounds_binary64_witness:
  "(\<forall>k::nat. 0 \<le> (1 / 2 :: real) \<and> (1 / 2 :: real) < 1) \<and>
   (\<forall>t::real. \<bar>cos t\<bar> \<le> 1 \<and> \<bar>sin t\<bar> \<le> 1) \<and>
   length (generatedVertices64 (\<lambda>k. 1 / 2) cos sin) = 8 \<and>
   radius64 (1 / 2) = Some 150 \<and>
   generatedVertices64 (\<lambda>k. 1 / 2) cos sin ! 0 = \<lparr> x64 = Some 450, y64 = Some 300 \<rparr>"
proof -
  have pre: "\<forall>k::nat. 0 \<le> (\<lambda>k. 1 / 2 :: real) k \<and> (\<lambda>k. 1 / 2 :: real) k < 1"
    "\<forall>t::real. \<bar>cos t\<bar> \<le> 1 \<and> \<bar>sin t\<bar> \<le> 1"
    by simp_all
  have len: "length (generatedVertices64 (\<lambda>k. 1 / 2) cos sin) = 8"
    by (simp add: generatedVertices64_eq middle_draw(1))
  then have i: "0 < length (generatedVertices64 (\<lambda>k. 1 / 2) cos sin)" by simp
  obtain r a where ra: "radius64 (1 / 2) = Some r"
    "angle64 (int 0) (numPoints64 (1 / 2)) = Some a"
    "generatedVertices64 (\<lambda>k. 1 / 2) cos sin ! 0 =
       \<lparr> x64 = add64 centerX64 (mul64 (Some (cos a)) (Some r)),
         y64 = add64 centerY64 (mul64 (Some (sin a)) (Some r)) \<rparr>"
    using generated_vertex_bounds_binary64 [OF pre] i by blast
  have r: "r = 150" using ra(1) by (simp add: middle_draw(2))
  have a: "a = 0" using ra(2) by (simp add: middle_draw)
  have "generatedVertices64 (\<lambda>k. 1 / 2) cos sin ! 0 = \<lparr> x64 = Some 450, y64 = Some 300 \<rparr>"
    unfolding ra(3) r a
    by (simp add: center64_value arith64_Some round64_zero round64_small_integers)
  then show ?thesis using len middle_draw(2) by simp
qed

text \<open>
  C10 as stated, with the radius in the half-open interval \<open>[60, 240)\<close>, fails on the
  binary64 embedding: \<open>1 - 1 / 2 ^ 53\<close> is a binary64 number in \<open>[0, 1)\<close>, and for this
  draw the radius rounds to exactly 240.
\<close>

theorem radius_bound_counterexample:
  "(0::real) \<le> 1 - 1 / 2 ^ 53 \<and> (1::real) - 1 / 2 ^ 53 < 1 \<and>
   round64 (1 - 1 / 2 ^ 53) = Some (1 - 1 / 2 ^ 53) \<and>
   radius64 (1 - 1 / 2 ^ 53) = Some 240 \<and>
   \<not> the (radius64 (1 - 1 / 2 ^ 53)) < 240"
  unfolding extreme_draw_radius by simp

end
